theory Spec2Isabelle
  imports Main "HOL-Library.Word" "HOL-Library.Signed_Division" "HOL-Library.Multiset"
begin

unbundle bit_operations_syntax

section \<open>Machine types of FlipSolver22.cpp\<close>

text \<open>
  \<^verbatim>\<open>typedef unsigned long long int vlong;\<close> is a 64-bit word: its arithmetic wraps and
  its order is the unsigned one.  The C type \<^verbatim>\<open>int\<close> is modelled by \<^typ>\<open>int\<close>: every
  \<^verbatim>\<open>int\<close> of the program is a slot index, a count or a small parameter, so 32-bit overflow
  plays no role; where an \<^verbatim>\<open>int\<close> meets a \<^verbatim>\<open>vlong\<close> the conversion of C
  (\<open>word_of_int\<close>, that is reduction modulo \<open>2 ^ 64\<close>) is written out, and \<^verbatim>\<open>/\<close> on
  \<^verbatim>\<open>int\<close> is the truncating \<open>sdiv\<close>.  The generator \<^verbatim>\<open>std::mt19937\<close> is a stream of
  32-bit words, read at a position that the state carries.
\<close>

type_synonym vlong = "64 word"
type_synonym rng = "nat \<Rightarrow> 32 word"

text \<open>
  Where the behaviour of the C++ program is undefined the model stops with a fault:
  a division by zero, or an access outside a vector or below cell 0 of a raw array.
  The loops \<^verbatim>\<open>while (true)\<close> are unfolded a bounded number of times, the bound (the fuel)
  being a parameter; \<open>OutOfFuel\<close> is not a behaviour of the program but says that the
  bound was reached.
\<close>

datatype fault = DivByZero | OutOfBounds | OutOfFuel

section \<open>Bit utilities\<close>

text \<open>\<^verbatim>\<open>bitcount\<close>: the loop \<^verbatim>\<open>while (n) { c++; n &= (n - 1); }\<close>.\<close>

lemma clear_lowest_less: "n \<noteq> 0 \<Longrightarrow> unat (n AND (n - 1)) < unat (n :: 'a::len word)"
proof -
  assume n: "n \<noteq> 0"
  have "n AND (n - 1) \<le> n - 1"
    by (rule word_and_le1)
  moreover have "n - 1 < n"
    using n by (metis diff_0_right less_eq_dec_iff sub_wrap)
  ultimately have "n AND (n - 1) < n"
    by simp
  then show ?thesis
    by (simp add: word_less_nat_alt)
qed

function bitcount_loop :: "int \<Rightarrow> vlong \<Rightarrow> int" where
  "bitcount_loop c n = (if n \<noteq> 0 then bitcount_loop (c + 1) (n AND (n - 1)) else c)"
  by pat_completeness auto
termination
  by (relation "measure (\<lambda>(c, n). unat n)") (auto simp: clear_lowest_less)

declare bitcount_loop.simps [simp del]

definition bitcount :: "vlong \<Rightarrow> int" where
  "bitcount var = bitcount_loop 0 var"

text \<open>\<^verbatim>\<open>bitlimit\<close>: \<^verbatim>\<open>while (n && m) { m--; n &= (n - 1); } return m;\<close>, the result read
  as a truth value by its callers.\<close>

function bitlimit_loop :: "int \<Rightarrow> vlong \<Rightarrow> int" where
  "bitlimit_loop m n = (if n \<noteq> 0 \<and> m \<noteq> 0 then bitlimit_loop (m - 1) (n AND (n - 1)) else m)"
  by pat_completeness auto
termination
  by (relation "measure (\<lambda>(m, n). unat n)") (auto simp: clear_lowest_less)

declare bitlimit_loop.simps [simp del]

definition bitlimit :: "vlong \<Rightarrow> int \<Rightarrow> int" where
  "bitlimit var exceed = bitlimit_loop exceed var"

section \<open>Termination policy\<close>

text \<open>
  \<^verbatim>\<open>updatelimit\<close>.  \<^verbatim>\<open>steps\<close> is an \<^verbatim>\<open>int\<close>, converted to \<^verbatim>\<open>vlong\<close> for the unsigned
  division; a zero divisor is undefined behaviour.  The parameter \<^verbatim>\<open>limit\<close> is not read.
\<close>

definition vdiv :: "vlong \<Rightarrow> int \<Rightarrow> fault + vlong" where
  "vdiv a steps = (if (word_of_int steps :: vlong) = 0 then Inl DivByZero
                   else Inr (a div word_of_int steps))"

definition updatelimit ::
  "vlong \<Rightarrow> vlong \<Rightarrow> int \<Rightarrow> int \<Rightarrow> int \<Rightarrow> int \<Rightarrow> int \<Rightarrow> vlong \<Rightarrow> fault + vlong" where
  "updatelimit limit flips termination split achieved target symm flimit =
    (if termination = 0 then Inr flimit
     else if termination = 1 then
       (if symm = 0 then Inl DivByZero
        else let steps = (achieved - target) sdiv symm
             in map_sum id (\<lambda>d. flips + d) (vdiv (flimit - flips) steps))
     else if termination = 2 then Inr (flips + flimit)
     else
       let slimit = (word_of_int split * flimit) div 100 in
       if achieved > termination then
         (if symm = 0 then Inl DivByZero
          else let steps = (achieved - termination) sdiv symm
               in map_sum id (\<lambda>d. flips + d) (vdiv (slimit - flips) steps))
       else
         (if symm = 0 then Inl DivByZero
          else let steps = (achieved - target) sdiv symm
               in map_sum id (\<lambda>d. flips + d) (vdiv (flimit - flips) steps)))"

section \<open>Plus schedule\<close>

text \<open>
  The rescheduling of \<^verbatim>\<open>plusby\<close>, written five times in \<^verbatim>\<open>main\<close> (at start-up, after
  each collapse and after each plus move):
  \<^verbatim>\<open>if (achieved >= maxplus) plusby = flimit * 1007;
  else if (plimit < 0) plusby = flips + symm + mt() % (-2 * plimit);
  else plusby = flips + plimit;\<close>
  \<^verbatim>\<open>plimit\<close> is declared \<^verbatim>\<open>vlong\<close>, so the comparison \<^verbatim>\<open>plimit < 0\<close> is the unsigned
  one.  The result is the new \<^verbatim>\<open>plusby\<close> and the new position of the generator.
\<close>

definition reschedule ::
  "rng \<Rightarrow> nat \<Rightarrow> int \<Rightarrow> int \<Rightarrow> vlong \<Rightarrow> vlong \<Rightarrow> vlong \<Rightarrow> int \<Rightarrow> fault + (vlong \<times> nat)" where
  "reschedule mt rpos achieved maxplus flimit plimit flips symm =
    (if achieved \<ge> maxplus then Inr (flimit * 1007, rpos)
     else if plimit < 0 then
       (if (- 2) * plimit = 0 then Inl DivByZero
        else Inr (flips + word_of_int symm + ucast (mt rpos) mod ((- 2) * plimit), Suc rpos))
     else Inr (flips + plimit, rpos))"

section \<open>Sequencing of fallible steps\<close>

definition bindE :: "fault + 'a \<Rightarrow> ('a \<Rightarrow> fault + 'b) \<Rightarrow> fault + 'b" where
  "bindE m f = (case m of Inl e \<Rightarrow> Inl e | Inr x \<Rightarrow> f x)"

lemma bindE_simps [simp]:
  "bindE (Inl e) f = Inl e"
  "bindE (Inr x) f = f x"
  by (simp_all add: bindE_def)

lemma bindE_cong [fundef_cong]:
  "m = m' \<Longrightarrow> (\<And>x. m' = Inr x \<Longrightarrow> f x = f' x) \<Longrightarrow> bindE m f = bindE m' f'"
  by (cases m') (simp_all add: bindE_def)

lemma bindE_eq_Inr: "bindE m f = Inr y \<longleftrightarrow> (\<exists>x. m = Inr x \<and> f x = Inr y)"
  by (cases m) simp_all

section \<open>The dictionary \<^verbatim>\<open>fgdict\<close>\<close>

text \<open>
  \<^verbatim>\<open>class fgdict\<close> holds three raw arrays of 1048576 cells and the hash of the last
  lookup.  A raw array is a function on indices; what \<^verbatim>\<open>new\<close> leaves in the cells is a
  parameter of the constructor.  Bucket \<open>h\<close> owns the cells \<open>h, ..., h + 15\<close>, and
  \<^verbatim>\<open>count[h]\<close> of them are in use.  The fields \<^verbatim>\<open>count\<close>, \<^verbatim>\<open>key\<close> and \<^verbatim>\<open>value\<close> are
  \<open>dcount\<close>, \<open>dkey\<close> and \<open>dvalue\<close> here.
\<close>

record fgdict =
  lasthash :: int
  dcount :: "int \<Rightarrow> int"
  dkey :: "int \<Rightarrow> vlong"
  dvalue :: "int \<Rightarrow> int"

text \<open>The constructor: \<^verbatim>\<open>count[i << 4] = 0\<close> for \<^verbatim>\<open>i < 65536\<close>; everything else is as found.\<close>

definition fgdict_new :: "(int \<Rightarrow> int) \<Rightarrow> (int \<Rightarrow> vlong) \<Rightarrow> (int \<Rightarrow> int) \<Rightarrow> fgdict" where
  "fgdict_new gc gk gv =
     \<lparr>lasthash = 0,
      dcount = (\<lambda>j. if 0 \<le> j \<and> j < 1048576 \<and> j mod 16 = 0 then 0 else gc j),
      dkey = gk, dvalue = gv\<rparr>"

text \<open>\<^verbatim>\<open>unsigned int h = (k % 65213) << 4;\<close>\<close>

definition hash :: "vlong \<Rightarrow> int" where
  "hash k = uint (k mod 65213) * 16"

text \<open>The loop of \<^verbatim>\<open>contains\<close>: \<^verbatim>\<open>for (int i = c - 1; i >= 0; i--) if (key[lasthash + i] == k) return 1;\<close>\<close>

function scan_key :: "(int \<Rightarrow> vlong) \<Rightarrow> int \<Rightarrow> vlong \<Rightarrow> int \<Rightarrow> bool" where
  "scan_key ky h k i = (if i \<ge> 0 then (if ky (h + i) = k then True else scan_key ky h k (i - 1)) else False)"
  by pat_completeness auto
termination
  by (relation "measure (\<lambda>(ky, h, k, i). nat (i + 1))") auto

declare scan_key.simps [simp del]

definition contains :: "fgdict \<Rightarrow> vlong \<Rightarrow> fgdict \<times> bool" where
  "contains d k =
     (let h = hash k; c = dcount d h in
      (d\<lparr>lasthash := h\<rparr>,
       if c = 0 then False
       else if c = 1 then dkey d h = k
       else scan_key (dkey d) h k (c - 1)))"

text \<open>\<^verbatim>\<open>add\<close> and \<^verbatim>\<open>addx\<close>; the latter trusts \<^verbatim>\<open>lasthash\<close>.\<close>

definition addx :: "fgdict \<Rightarrow> vlong \<Rightarrow> int \<Rightarrow> fgdict" where
  "addx d k v =
     (let b = lasthash d + dcount d (lasthash d) in
      d\<lparr>dkey := (dkey d)(b := k), dvalue := (dvalue d)(b := v),
        dcount := (dcount d)(lasthash d := dcount d (lasthash d) + 1)\<rparr>)"

definition add :: "fgdict \<Rightarrow> vlong \<Rightarrow> int \<Rightarrow> fgdict" where
  "add d k v = addx (d\<lparr>lasthash := hash k\<rparr>) k v"

text \<open>
  The search shared by \<^verbatim>\<open>replace\<close> and \<^verbatim>\<open>getvalue\<close>:
  \<^verbatim>\<open>vlong x = key[i]; while (x != k) { i--; x = key[i]; }\<close>.
  It walks down the key array and does not look at the bucket's border; below cell 0 it
  leaves the array.
\<close>

function find_key :: "(int \<Rightarrow> vlong) \<Rightarrow> vlong \<Rightarrow> int \<Rightarrow> fault + int" where
  "find_key ky k i =
     (if i < 0 then Inl OutOfBounds
      else if ky i = k then Inr i
      else find_key ky k (i - 1))"
  by pat_completeness auto
termination
  by (relation "measure (\<lambda>(ky, k, i). nat (i + 1))") auto

declare find_key.simps [simp del]

text \<open>
  The loop of \<^verbatim>\<open>remove\<close>, which carries the entry \<open>(x, v)\<close> picked up at cell \<open>i\<close> one
  cell down until the key is met:
  \<^verbatim>\<open>while (x != k) { i--; vlong y = x; x = key[i]; key[i] = y;
                     int w = v; v = value[i]; value[i] = w; }\<close>
\<close>

function remove_loop ::
  "(int \<Rightarrow> vlong) \<Rightarrow> (int \<Rightarrow> int) \<Rightarrow> vlong \<Rightarrow> int \<Rightarrow> vlong \<Rightarrow> int
     \<Rightarrow> fault + ((int \<Rightarrow> vlong) \<times> (int \<Rightarrow> int))" where
  "remove_loop ky vl k i x v =
     (if x \<noteq> k then
        (if i - 1 < 0 then Inl OutOfBounds
         else remove_loop (ky(i - 1 := x)) (vl(i - 1 := v)) k (i - 1) (ky (i - 1)) (vl (i - 1)))
      else Inr (ky, vl))"
  by pat_completeness auto
termination
  by (relation "measure (\<lambda>(ky, vl, k, i, x, v). nat i)") auto

declare remove_loop.simps [simp del]

definition removex :: "fgdict \<Rightarrow> vlong \<Rightarrow> fault + fgdict" where
  "removex d k =
     (let c = dcount d (lasthash d) in
      if c = 1 then Inr (d\<lparr>dcount := (dcount d)(lasthash d := 0)\<rparr>)
      else
        let i = lasthash d + c - 1 in
        if i < 0 then Inl OutOfBounds
        else bindE (remove_loop (dkey d) (dvalue d) k i (dkey d i) (dvalue d i))
               (\<lambda>(ky, vl). Inr (d\<lparr>dkey := ky, dvalue := vl,
                                    dcount := (dcount d)(lasthash d := c - 1)\<rparr>)))"

definition remove :: "fgdict \<Rightarrow> vlong \<Rightarrow> fault + fgdict" where
  "remove d k = removex (d\<lparr>lasthash := hash k\<rparr>) k"

definition replacex :: "fgdict \<Rightarrow> vlong \<Rightarrow> int \<Rightarrow> fault + fgdict" where
  "replacex d k v =
     (let c = dcount d (lasthash d) in
      if c = 1 then Inr (d\<lparr>dvalue := (dvalue d)(lasthash d := v)\<rparr>)
      else bindE (find_key (dkey d) k (lasthash d + c - 1))
             (\<lambda>i. Inr (d\<lparr>dvalue := (dvalue d)(i := v)\<rparr>)))"

definition replace :: "fgdict \<Rightarrow> vlong \<Rightarrow> int \<Rightarrow> fault + fgdict" where
  "replace d k v = replacex (d\<lparr>lasthash := hash k\<rparr>) k v"

definition getvaluex :: "fgdict \<Rightarrow> vlong \<Rightarrow> fault + int" where
  "getvaluex d k =
     (let c = dcount d (lasthash d) in
      if c = 1 then Inr (dvalue d (lasthash d))
      else bindE (find_key (dkey d) k (lasthash d + c - 1)) (\<lambda>i. Inr (dvalue d i)))"

text \<open>\<^verbatim>\<open>getvalue\<close> also leaves the hash of \<open>k\<close> in \<^verbatim>\<open>lasthash\<close>, which its callers rely on.\<close>

definition getvalue :: "fgdict \<Rightarrow> vlong \<Rightarrow> fault + (fgdict \<times> int)" where
  "getvalue d k =
     (let d' = d\<lparr>lasthash := hash k\<rparr> in
      bindE (getvaluex d' k) (\<lambda>v. Inr (d', v)))"

section \<open>The multimap and the list of colliding values\<close>

text \<open>
  The five objects that \<^verbatim>\<open>flipdel\<close> and \<^verbatim>\<open>flipadd\<close> receive by reference.
  \<^verbatim>\<open>uniques\<close> maps a value to the base \<open>b\<close> of its block in \<^verbatim>\<open>unarray\<close>;
  \<^verbatim>\<open>unarray[b]\<close> is the number \<open>l\<close> of slots of the value and \<^verbatim>\<open>unarray[b + 1 .. b + l]\<close>
  are the slots.  \<^verbatim>\<open>avail\<close> is the stack of free blocks.  \<^verbatim>\<open>twoplusl\<close> lists the values
  with two slots or more and \<^verbatim>\<open>twoplusd\<close> maps such a value to its position in the list.
  A \<^verbatim>\<open>std::vector\<close> is a list whose last element is \<^verbatim>\<open>back()\<close>.
\<close>

record multimap =
  unarray :: "int \<Rightarrow> int"
  avail :: "int list"
  uniques :: fgdict
  twoplusd :: fgdict
  twoplusl :: "vlong list"

text \<open>The loop of \<^verbatim>\<open>flipdel\<close>:
  \<^verbatim>\<open>while (x != r) { i--; int y = x; x = unarray[i]; unarray[i] = y; }\<close>\<close>

function unshift :: "(int \<Rightarrow> int) \<Rightarrow> int \<Rightarrow> int \<Rightarrow> int \<Rightarrow> fault + (int \<Rightarrow> int)" where
  "unshift ua r i x =
     (if x \<noteq> r then
        (if i - 1 < 0 then Inl OutOfBounds
         else unshift (ua(i - 1 := x)) r (i - 1) (ua (i - 1)))
      else Inr ua)"
  by pat_completeness auto
termination
  by (relation "measure (\<lambda>(ua, r, i, x). nat i)") auto

declare unshift.simps [simp del]

text \<open>The first half of \<^verbatim>\<open>flipdel\<close>, run when \<^verbatim>\<open>l == 2\<close>: the value leaves the list of
  colliding values, the last value of the list taking its place.\<close>

definition uncollide :: "fgdict \<Rightarrow> vlong \<Rightarrow> ('a multimap_scheme) \<Rightarrow> fault + (fgdict \<times> vlong list)" where
  "uncollide u v m =
     bindE (getvaluex ((twoplusd m)\<lparr>lasthash := lasthash u\<rparr>) v) (\<lambda>rsi.
     if twoplusl m = [] then Inl OutOfBounds
     else
       let rsl = last (twoplusl m) in
       bindE (replace ((twoplusd m)\<lparr>lasthash := lasthash u\<rparr>) rsl rsi) (\<lambda>td.
       if rsi < 0 \<or> rsi \<ge> int (length (twoplusl m)) then Inl OutOfBounds
       else
         bindE (removex (td\<lparr>lasthash := lasthash u\<rparr>) v) (\<lambda>td'.
         Inr (td', butlast ((twoplusl m)[nat rsi := rsl])))))"

definition flipdel :: "int \<Rightarrow> vlong \<Rightarrow> ('a multimap_scheme) \<Rightarrow> fault + ('a multimap_scheme)" where
  "flipdel r v m =
     bindE (getvalue (uniques m) v) (\<lambda>(u, b).
     let l = unarray m b in
     bindE (if l = 2 then uncollide u v m else Inr (twoplusd m, twoplusl m)) (\<lambda>(td, tl).
     if l = 1 then
       bindE (removex u v) (\<lambda>u'.
       Inr (m\<lparr>avail := avail m @ [b], uniques := u', twoplusd := td, twoplusl := tl\<rparr>))
     else
       bindE (unshift (unarray m) r (b + l) (unarray m (b + l))) (\<lambda>ua.
       Inr (m\<lparr>unarray := ua(b := l - 1), uniques := u, twoplusd := td, twoplusl := tl\<rparr>))))"

definition flipadd :: "int \<Rightarrow> vlong \<Rightarrow> ('a multimap_scheme) \<Rightarrow> fault + ('a multimap_scheme)" where
  "flipadd r v m =
     (case contains (uniques m) v of
        (u, True) \<Rightarrow>
          bindE (getvaluex u v) (\<lambda>b.
          let l = unarray m b;
              td = (if l = 1
                    then addx ((twoplusd m)\<lparr>lasthash := lasthash u\<rparr>) v (int (length (twoplusl m)))
                    else twoplusd m);
              tl = (if l = 1 then twoplusl m @ [v] else twoplusl m)
          in Inr (m\<lparr>unarray := (unarray m)(b + (l + 1) := r, b := l + 1),
                    uniques := u, twoplusd := td, twoplusl := tl\<rparr>))
      | (u, False) \<Rightarrow>
          if avail m = [] then Inl OutOfBounds
          else
            let b = last (avail m) in
            Inr (m\<lparr>unarray := (unarray m)(b + 1 := r, b := 1),
                   avail := butlast (avail m), uniques := addx u v b\<rparr>))"

section \<open>Parameters, tables and state of \<^verbatim>\<open>main\<close>\<close>

text \<open>The scalars read from the first line of the file that the loops do not change
  (\<^verbatim>\<open>termination\<close> and \<^verbatim>\<open>split\<close> are \<open>termination_mode\<close> and \<open>split_pct\<close> here).\<close>

record params =
  nomuls :: int
  target :: int
  flimit :: vlong
  plimit :: vlong
  termination_mode :: int
  rseed :: int
  symm :: int
  maxplus :: int
  split_pct :: int
  maxsize :: int

text \<open>
  The partner tables, filled by
  \<^verbatim>\<open>for (int i = 0; i < nomuls; i += 3) { me[i] = i + 2; mf[i] = i + 1; me[i + 1] = i;
     mf[i + 1] = i + 2; me[i + 2] = i + 1; mf[i + 2] = i; }\<close>,
  as functions of the slot.
\<close>

definition me :: "int \<Rightarrow> int" where
  "me p = (if p mod 3 = 0 then p + 2 else p - 1)"

definition mf :: "int \<Rightarrow> int" where
  "mf p = (if p mod 3 = 2 then p - 2 else p + 1)"

text \<open>\<^verbatim>\<open>permit[i][j]\<close> is 0 if \<^verbatim>\<open>i / symm == j / symm\<close> and 1 otherwise.\<close>

definition permit :: "int \<Rightarrow> int \<Rightarrow> int \<Rightarrow> bool" where
  "permit sy i j = (i sdiv sy \<noteq> j sdiv sy)"

text \<open>
  The tables of ordered pairs:
  \<^verbatim>\<open>for (int x = 1; x < 80; x++) { for (int y = 0; y < x; y++) { ps.push_back(x);
     qs.push_back(y); ps.push_back(y); qs.push_back(x); } combs.push_back(ps.size()); }\<close>
  after \<^verbatim>\<open>combs\<close> has received two zeros.
\<close>

definition pairs_upto :: "nat \<Rightarrow> (int \<times> int) list" where
  "pairs_upto n = concat (map (\<lambda>x. concat (map (\<lambda>y. [(int x, int y), (int y, int x)]) [0..<x])) [1..<n])"

definition ps :: "int list" where
  "ps = map fst (pairs_upto 80)"

definition qs :: "int list" where
  "qs = map snd (pairs_upto 80)"

definition combs :: "int list" where
  "combs = 0 # 0 # map (\<lambda>x. int (length (pairs_upto (Suc x)))) [1..<80]"

text \<open>
  The state that the loops of \<^verbatim>\<open>main\<close> change: the multimap, the decomposition and its
  best snapshot, the counters (\<^verbatim>\<open>plus\<close> is \<open>plus_count\<close>), the position of the generator, and the content of the file
  \<^verbatim>\<open>argv[1]\<close> when the program has written it (its lines, the first one as the list of
  its numbers).
\<close>

datatype filetext = Outfile (out_header: "int list") (out_body: "vlong list")

record state = multimap +
  muls :: "vlong list"
  best :: "vlong list"
  flips :: vlong
  plus_count :: vlong
  plusby :: vlong
  recovery :: vlong
  limit :: vlong
  achieved :: int
  minmuls :: int
  rcode :: int
  rpos :: nat
  outfile :: "filetext option"

section \<open>Start-up\<close>

text \<open>
  What the program reads from its file (the tokens \<^verbatim>\<open>rcode\<close> and \<^verbatim>\<open>minmuls\<close> of the
  first line are read and overwritten before use), and what the raw arrays hold before
  the program writes them.  \<open>in_muls\<close> are the \<^verbatim>\<open>nomuls\<close> values of the file; the loop
  that fills \<^verbatim>\<open>me\<close> and \<^verbatim>\<open>mf\<close> in steps of three writes past their end unless
  \<^verbatim>\<open>nomuls\<close> is a multiple of 3, and the loop that fills \<^verbatim>\<open>permit\<close> divides by
  \<^verbatim>\<open>symm\<close>.
\<close>

record input = params +
  in_flips :: vlong
  in_muls :: "vlong list"

record rawmem =
  raw_unarray :: "int \<Rightarrow> int"
  raw_ucount :: "int \<Rightarrow> int"
  raw_ukey :: "int \<Rightarrow> vlong"
  raw_uvalue :: "int \<Rightarrow> int"
  raw_tcount :: "int \<Rightarrow> int"
  raw_tkey :: "int \<Rightarrow> vlong"
  raw_tvalue :: "int \<Rightarrow> int"

definition params_of :: "input \<Rightarrow> params" where
  "params_of inp = params.truncate inp"

text \<open>The body of the loop that indexes the input decomposition (the counter
  \<^verbatim>\<open>achieved\<close> is the second component).\<close>

definition index_slot :: "int \<Rightarrow> vlong \<Rightarrow> multimap \<times> int \<Rightarrow> fault + (multimap \<times> int)" where
  "index_slot i m = (\<lambda>(mm, ach).
     if m > 0 then
       (case contains (uniques mm) m of
          (u0, True) \<Rightarrow>
            bindE (getvalue u0 m) (\<lambda>(u, b).
            let l = unarray mm b + 1;
                ua = (unarray mm)(b + l := i, b := l)
            in case contains (twoplusd mm) m of
                 (td, True) \<Rightarrow> Inr (mm\<lparr>unarray := ua, uniques := u, twoplusd := td\<rparr>, ach + 1)
               | (td, False) \<Rightarrow>
                   Inr (mm\<lparr>unarray := ua, uniques := u,
                           twoplusd := add td m (int (length (twoplusl mm))),
                           twoplusl := twoplusl mm @ [m]\<rparr>, ach + 1))
        | (u0, False) \<Rightarrow>
            if avail mm = [] then Inl OutOfBounds
            else
              let b = last (avail mm) in
              Inr (mm\<lparr>unarray := (unarray mm)(b := 1, b + 1 := i),
                      avail := butlast (avail mm), uniques := add u0 m b\<rparr>, ach + 1))
     else Inr (mm, ach))"

fun index_all :: "int \<Rightarrow> vlong list \<Rightarrow> multimap \<times> int \<Rightarrow> fault + (multimap \<times> int)" where
  "index_all i [] acc = Inr acc"
| "index_all i (m # ms) acc = bindE (index_slot i m acc) (index_all (i + 1) ms)"

definition empty_multimap :: "rawmem \<Rightarrow> int \<Rightarrow> multimap" where
  "empty_multimap g n =
     \<lparr>unarray = raw_unarray g,
      avail = map (\<lambda>i. i * (n + 1)) [0..n - 1],
      uniques = fgdict_new (raw_ucount g) (raw_ukey g) (raw_uvalue g),
      twoplusd = fgdict_new (raw_tcount g) (raw_tkey g) (raw_tvalue g),
      twoplusl = []\<rparr>"

definition startup :: "rawmem \<Rightarrow> rng \<Rightarrow> input \<Rightarrow> fault + state" where
  "startup g mt inp =
     (if \<not> (int (length (in_muls inp)) = nomuls inp \<and> nomuls inp mod 3 = 0) then Inl OutOfBounds
      else if symm inp = 0 \<and> nomuls inp > 0 then Inl DivByZero
      else
     bindE (index_all 0 (in_muls inp) (empty_multimap g (nomuls inp), 0)) (\<lambda>(mm, ach).
     bindE (reschedule mt 0 ach (maxplus inp) (flimit inp) (plimit inp) (in_flips inp) (symm inp))
       (\<lambda>(pb, rp).
     bindE (updatelimit 0 (in_flips inp) (termination_mode inp) (split_pct inp) ach
              (target inp) (symm inp) (flimit inp)) (\<lambda>lim.
     Inr (multimap.extend mm
            \<lparr>muls = in_muls inp, best = in_muls inp, flips = in_flips inp, plus_count = 0,
             plusby = pb, recovery = 5000000000, limit = lim, achieved = ach, minmuls = ach,
             rcode = 0, rpos = rp, outfile = None\<rparr>)))))"

section \<open>Sampling a colliding pair\<close>

text \<open>
  The block that all six sampling loops of \<^verbatim>\<open>main\<close> share: a colliding value is drawn
  with the low bits of the sample and an ordered pair of its slots with the high bits.
  \<^verbatim>\<open>sample % twoplusl.size()\<close> divides by zero when the list is empty, and
  \<^verbatim>\<open>combs\<close> has 81 entries.
\<close>

definition draw :: "32 word \<Rightarrow> ('a multimap_scheme) \<Rightarrow> fault + ('a multimap_scheme \<times> int \<times> int)" where
  "draw sample m =
     (if twoplusl m = [] then Inl DivByZero
      else
        let v = twoplusl m ! (unat sample mod length (twoplusl m)) in
        bindE (getvalue (uniques m) v) (\<lambda>(u, b0).
        let l = unarray m b0; b = b0 + 1; m' = m\<lparr>uniques := u\<rparr> in
        if l = 2 then
          (if sample AND 65536 \<noteq> 0 then Inr (m', unarray m b, unarray m (b + 1))
           else Inr (m', unarray m (b + 1), unarray m b))
        else if l < 0 \<or> l \<ge> int (length combs) then Inl OutOfBounds
        else if combs ! nat l = 0 then Inl DivByZero
        else
          let x = uint (drop_bit 16 sample) mod (combs ! nat l) in
          Inr (m', unarray m (b + ps ! nat x), unarray m (b + qs ! nat x))))"

text \<open>The locals of one sampling attempt.  \<^verbatim>\<open>p\<close> and \<^verbatim>\<open>q\<close> are \<open>slot_p\<close> and \<open>slot_q\<close>;
  for \<^verbatim>\<open>symm == 3\<close> the program has no variables \<^verbatim>\<open>mpd\<close> and \<^verbatim>\<open>mqd\<close> and writes
  \<^verbatim>\<open>muls[p]\<close> and \<^verbatim>\<open>muls[q]\<close> instead.\<close>

record pick =
  slot_p :: int
  slot_q :: int
  mpd :: vlong
  mpe :: vlong
  mpf :: vlong
  mqd :: vlong
  mqe :: vlong
  mqf :: vlong
  mpen :: vlong
  mqfn :: vlong

definition in_range :: "'a list \<Rightarrow> int \<Rightarrow> bool" where
  "in_range xs i = (0 \<le> i \<and> i < int (length xs))"

definition triple_in_range :: "'a list \<Rightarrow> int \<Rightarrow> bool" where
  "triple_in_range xs p = (in_range xs p \<and> in_range xs (me p) \<and> in_range xs (mf p))"

definition read_pick :: "vlong list \<Rightarrow> int \<Rightarrow> int \<Rightarrow> pick" where
  "read_pick ms p q =
     \<lparr>slot_p = p, slot_q = q,
      mpd = ms ! nat p, mpe = ms ! nat (me p), mpf = ms ! nat (mf p),
      mqd = ms ! nat q, mqe = ms ! nat (me q), mqf = ms ! nat (mf q),
      mpen = ms ! nat (me q) XOR ms ! nat (me p),
      mqfn = ms ! nat (mf q) XOR ms ! nat (mf p)\<rparr>"

text \<open>One attempt: a sample is taken from the generator, the pair is drawn and the six
  values are read.\<close>

definition attempt :: "rng \<Rightarrow> state \<Rightarrow> fault + (state \<times> pick)" where
  "attempt mt st =
     bindE (draw (mt (rpos st)) st) (\<lambda>(st', p, q).
     if triple_in_range (muls st) p \<and> triple_in_range (muls st) q
     then Inr (st'\<lparr>rpos := Suc (rpos st)\<rparr>, read_pick (muls st) p q)
     else Inl OutOfBounds)"

text \<open>The three conditions under which a loop is left with \<^verbatim>\<open>break\<close>, by the sign of
  \<^verbatim>\<open>maxsize\<close>; \<^verbatim>\<open>exceed\<close> is \<^verbatim>\<open>1 - maxsize\<close>.\<close>

definition accept :: "params \<Rightarrow> pick \<Rightarrow> bool" where
  "accept P c =
     (if maxsize P = 0 then permit (symm P) (slot_p c) (slot_q c)
      else if maxsize P > 0 then
        permit (symm P) (slot_p c) (slot_q c)
        \<and> bitcount (mpd c) * bitcount (mpen c) * bitcount (mpf c) \<le> maxsize P
        \<and> bitcount (mqd c) * bitcount (mqe c) * bitcount (mqfn c) \<le> maxsize P
      else
        permit (symm P) (slot_p c) (slot_q c)
        \<and> bitlimit (mpen c) (1 - maxsize P) \<noteq> 0
        \<and> bitlimit (mqfn c) (1 - maxsize P) \<noteq> 0)"

text \<open>\<^verbatim>\<open>while (true)\<close> of the mode \<^verbatim>\<open>maxsize == 0\<close>.\<close>

fun sample_forever :: "nat \<Rightarrow> params \<Rightarrow> rng \<Rightarrow> state \<Rightarrow> fault + (state \<times> pick)" where
  "sample_forever 0 P mt st = Inl OutOfFuel"
| "sample_forever (Suc n) P mt st =
     bindE (attempt mt st) (\<lambda>(st', c).
     if accept P c then Inr (st', c) else sample_forever n P mt st')"

text \<open>\<^verbatim>\<open>for (k = 0; k < 1000; k++)\<close> of the other two modes; \<open>None\<close> is \<^verbatim>\<open>k == 1000\<close>.\<close>

fun sample_bounded :: "nat \<Rightarrow> params \<Rightarrow> rng \<Rightarrow> state \<Rightarrow> fault + (state \<times> pick option)" where
  "sample_bounded 0 P mt st = Inr (st, None)"
| "sample_bounded (Suc n) P mt st =
     bindE (attempt mt st) (\<lambda>(st', c).
     if accept P c then Inr (st', Some c) else sample_bounded n P mt st')"

definition sample_pair :: "nat \<Rightarrow> params \<Rightarrow> rng \<Rightarrow> state \<Rightarrow> fault + (state \<times> pick option)" where
  "sample_pair fuel P mt st =
     (if maxsize P = 0
      then bindE (sample_forever fuel P mt st) (\<lambda>(st', c). Inr (st', Some c))
      else sample_bounded 1000 P mt st)"

section \<open>After a collapse\<close>

text \<open>How an iteration of the main loop ends: it goes on to the next statement, or it
  leaves the loop with \<^verbatim>\<open>break\<close>.\<close>

datatype 'a outcome = Continue (state_of: 'a) | Break (state_of: 'a)

text \<open>\<^verbatim>\<open>for (int l = 0; l < nomuls; l++) best[l] = muls[l];\<close>\<close>

definition copy_best :: "int \<Rightarrow> vlong list \<Rightarrow> vlong list \<Rightarrow> vlong list" where
  "copy_best n ms bs = fold (\<lambda>l b. b[nat l := ms ! nat l]) [0..n - 1] bs"

text \<open>The trigger: every colliding value has all its slots in one orbit.\<close>

fun trigger_loop :: "int \<Rightarrow> vlong list \<Rightarrow> state \<Rightarrow> bool \<Rightarrow> fault + (state \<times> bool)" where
  "trigger_loop sy [] st tr = Inr (st, tr)"
| "trigger_loop sy (v # vs) st tr =
     bindE (getvalue (uniques st) v) (\<lambda>(u, b).
     let t = unarray st (b + 1) sdiv sy;
         same = list_all (\<lambda>i. unarray st (b + i + 1) sdiv sy = t) [1..unarray st b - 1]
     in trigger_loop sy vs (st\<lparr>uniques := u\<rparr>) (tr \<and> same))"

text \<open>The statements that follow the deletion of an orbit, the same at all four places
  but for the divisor of the trigger (3 or 6).\<close>

definition after_collapse :: "params \<Rightarrow> rng \<Rightarrow> int \<Rightarrow> state \<Rightarrow> fault + state outcome" where
  "after_collapse P mt sy st0 =
     bindE (if achieved st0 < minmuls st0 then
              (if achieved st0 > target P then
                 map_sum id (\<lambda>l. st0\<lparr>minmuls := achieved st0, limit := l\<rparr>)
                   (updatelimit (limit st0) (flips st0) (termination_mode P) (split_pct P)
                      (achieved st0) (target P) (symm P) (flimit P))
               else Inr (st0\<lparr>minmuls := achieved st0\<rparr>))
            else Inr st0) (\<lambda>st1.
     let st2 = (if achieved st1 \<le> minmuls st1
                then st1\<lparr>best := copy_best (nomuls P) (muls st1) (best st1)\<rparr> else st1) in
     bindE (reschedule mt (rpos st2) (achieved st2) (maxplus P) (flimit P) (plimit P)
              (flips st2) (symm P)) (\<lambda>(pb, rp).
     let st3 = st2\<lparr>plusby := pb, rpos := rp\<rparr> in
     if twoplusl st3 = [] then Inr (Break (st3\<lparr>rcode := - 1\<rparr>))
     else if achieved st3 \<le> target P then Inr (Break st3)
     else
       bindE (trigger_loop sy (twoplusl st3) st3 True) (\<lambda>(st4, trigger).
       Inr (Continue (if trigger then st4\<lparr>plusby := flips st4\<rparr> else st4)))))"

text \<open>Threading an outcome: \<^verbatim>\<open>break\<close> skips what follows.\<close>

definition andthen :: "fault + 'a outcome \<Rightarrow> ('a \<Rightarrow> fault + 'a outcome) \<Rightarrow> fault + 'a outcome" where
  "andthen m f = bindE m (\<lambda>out. case out of Continue x \<Rightarrow> f x | Break x \<Rightarrow> Inr (Break x))"

section \<open>The flip for \<^verbatim>\<open>symm == 3\<close>\<close>

text \<open>The commit: the two changed slots \<^verbatim>\<open>me[p]\<close> and \<^verbatim>\<open>mf[q]\<close>.\<close>

definition write_slot :: "int \<Rightarrow> vlong \<Rightarrow> state \<Rightarrow> state" where
  "write_slot s v st = st\<lparr>muls := (muls st)[nat s := v]\<rparr>"

definition commit3 :: "pick \<Rightarrow> state \<Rightarrow> fault + state" where
  "commit3 c st =
     bindE (flipdel (me (slot_p c)) (mpe c) st) (\<lambda>st1.
     bindE (flipadd (me (slot_p c)) (mpen c) st1) (\<lambda>st2.
     bindE (flipdel (mf (slot_q c)) (mqf c) (write_slot (me (slot_p c)) (mpen c) st2)) (\<lambda>st3.
     bindE (flipadd (mf (slot_q c)) (mqfn c) st3) (\<lambda>st4.
     Inr (write_slot (mf (slot_q c)) (mqfn c) st4)))))"

text \<open>The deletion of the orbit of \<^verbatim>\<open>p\<close> (run when \<^verbatim>\<open>mpen == 0\<close>) and of \<^verbatim>\<open>q\<close> (run when
  \<^verbatim>\<open>mqfn == 0\<close>), up to \<^verbatim>\<open>achieved -= 3\<close>.\<close>

definition collapse_p3 :: "pick \<Rightarrow> state \<Rightarrow> fault + state" where
  "collapse_p3 c st =
     bindE (flipdel (slot_p c) (muls st ! nat (slot_p c)) st) (\<lambda>st1.
     bindE (flipdel (me (slot_p c)) (mpen c) st1) (\<lambda>st2.
     bindE (flipdel (mf (slot_p c)) (mpf c) st2) (\<lambda>st3.
     Inr ((write_slot (mf (slot_p c)) 0 (write_slot (slot_p c) 0 st3))
            \<lparr>achieved := achieved st3 - 3\<rparr>))))"

definition collapse_q3 :: "pick \<Rightarrow> state \<Rightarrow> fault + state" where
  "collapse_q3 c st =
     bindE (flipdel (slot_q c) (muls st ! nat (slot_q c)) st) (\<lambda>st1.
     bindE (flipdel (me (slot_q c)) (mqe c) st1) (\<lambda>st2.
     bindE (flipdel (mf (slot_q c)) (mqfn c) st2) (\<lambda>st3.
     Inr ((write_slot (me (slot_q c)) 0 (write_slot (slot_q c) 0 st3))
            \<lparr>achieved := achieved st3 - 3\<rparr>))))"

text \<open>The flip of a sampled pair: the commit and the two collapses.\<close>

definition apply_flip3 :: "params \<Rightarrow> rng \<Rightarrow> pick \<Rightarrow> state \<Rightarrow> fault + state outcome" where
  "apply_flip3 P mt c st =
     bindE (commit3 c st) (\<lambda>st2.
     andthen (if mpen c = 0 then bindE (collapse_p3 c st2) (after_collapse P mt 3)
              else Inr (Continue st2)) (\<lambda>st3.
     if mqfn c = 0 then bindE (collapse_q3 c st3) (after_collapse P mt 3)
     else Inr (Continue st3)))"

text \<open>An iteration from \<^verbatim>\<open>flips += 3\<close> to the end of the second collapse; after a
  thousand failed attempts it sets \<^verbatim>\<open>rcode = 6\<close> and leaves the loop.\<close>

definition flip3 :: "nat \<Rightarrow> params \<Rightarrow> rng \<Rightarrow> state \<Rightarrow> fault + state outcome" where
  "flip3 fuel P mt st =
     bindE (sample_pair fuel P mt (st\<lparr>flips := flips st + 3\<rparr>)) (\<lambda>(st1, co).
     case co of
       None \<Rightarrow> Inr (Break (st1\<lparr>rcode := 6\<rparr>))
     | Some c \<Rightarrow> apply_flip3 P mt c st1)"

section \<open>The plus move for \<^verbatim>\<open>symm == 3\<close>\<close>

text \<open>The first line of the file, as the list of its thirteen numbers with the given
  number in the place of \<^verbatim>\<open>rcode\<close>.\<close>

definition first_line :: "params \<Rightarrow> state \<Rightarrow> int \<Rightarrow> int list" where
  "first_line P st rc =
     [nomuls P, uint (flips st), rc, target P, uint (flimit P), uint (plimit P),
      termination_mode P, rseed P, symm P, maxplus P, achieved st, minmuls st,
      uint (plus_count st)]"

text \<open>The recovery snapshot: \<^verbatim>\<open>if (flips >= recovery) { recovery += 5000000000; ... }\<close>,
  which writes the number 2 where the file has \<^verbatim>\<open>rcode\<close>, and the vector \<^verbatim>\<open>muls\<close>.\<close>

definition snapshot :: "params \<Rightarrow> state \<Rightarrow> state" where
  "snapshot P st =
     (if flips st \<ge> recovery st
      then st\<lparr>recovery := recovery st + 5000000000,
               outfile := Some (Outfile (first_line P st 2) (muls st))\<rparr>
      else st)"

text \<open>\<^verbatim>\<open>for (r = 0; r < nomuls; r++) { if (muls[r] == 0) break; }\<close>\<close>

definition first_zero :: "int \<Rightarrow> vlong list \<Rightarrow> int" where
  "first_zero n ms = (case List.find (\<lambda>r. ms ! nat r = 0) [0..n - 1] of
                        Some r \<Rightarrow> r | None \<Rightarrow> max n 0)"

text \<open>The values read for a candidate of the plus move; here \<^verbatim>\<open>mpen = mpe ^ mqe\<close> and
  \<^verbatim>\<open>mqfn = mpf ^ mqf\<close>.  The other new values are named in the program
  (\<^verbatim>\<open>mpdn = mpd\<close>, \<^verbatim>\<open>mpfn = mpf\<close>, \<^verbatim>\<open>mqdn = mpd\<close>, \<^verbatim>\<open>mqen = mqe\<close>,
  \<^verbatim>\<open>mrdn = mpd ^ mqd\<close>, \<^verbatim>\<open>mren = mqe\<close>, \<^verbatim>\<open>mrfn = mqf\<close>) and written out here.\<close>

definition read_plus :: "vlong list \<Rightarrow> int \<Rightarrow> int \<Rightarrow> pick" where
  "read_plus ms p q =
     \<lparr>slot_p = p, slot_q = q,
      mpd = ms ! nat p, mpe = ms ! nat (me p), mpf = ms ! nat (mf p),
      mqd = ms ! nat q, mqe = ms ! nat (me q), mqf = ms ! nat (mf q),
      mpen = ms ! nat (me p) XOR ms ! nat (me q),
      mqfn = ms ! nat (mf p) XOR ms ! nat (mf q)\<rparr>"

text \<open>The size test of a candidate (the first two \<^verbatim>\<open>if\<close> of the search loop) and the
  tests on its values.\<close>

definition plus_size_ok :: "params \<Rightarrow> pick \<Rightarrow> bool" where
  "plus_size_ok P c =
     (if maxsize P > 0 then
        \<not> (bitcount (mpd c) * bitcount (mpen c) * bitcount (mpf c) > maxsize P
           \<or> bitcount (mpd c) * bitcount (mqe c) * bitcount (mqfn c) > maxsize P
           \<or> bitcount (mpd c XOR mqd c) * bitcount (mqe c) * bitcount (mqf c) > maxsize P)
      else if maxsize P < 0 then
        bitlimit (mpen c) (1 - maxsize P) \<noteq> 0 \<and> bitlimit (mqfn c) (1 - maxsize P) \<noteq> 0
        \<and> bitlimit (mpd c XOR mqd c) (1 - maxsize P) \<noteq> 0
      else True)"

definition plus_values_ok :: "pick \<Rightarrow> bool" where
  "plus_values_ok c =
     (\<not> (mpd c = 0 \<or> mqd c = 0) \<and> \<not> (mpd c = mqd c \<or> mpe c = mqe c \<or> mpf c = mqf c))"

text \<open>\<^verbatim>\<open>p = mt() % nomuls\<close>: the generator's result and \<^verbatim>\<open>nomuls\<close> meet as unsigned
  64-bit numbers.\<close>

definition random_slot :: "32 word \<Rightarrow> int \<Rightarrow> int" where
  "random_slot w n = uint ((ucast w :: vlong) mod word_of_int n)"

fun plus_search3 :: "nat \<Rightarrow> params \<Rightarrow> rng \<Rightarrow> state \<Rightarrow> fault + (state \<times> pick)" where
  "plus_search3 0 P mt st = Inl OutOfFuel"
| "plus_search3 (Suc n) P mt st =
     (if (word_of_int (nomuls P) :: vlong) = 0 then Inl DivByZero
      else
        let p = random_slot (mt (rpos st)) (nomuls P);
            q = random_slot (mt (Suc (rpos st))) (nomuls P);
            st' = st\<lparr>rpos := Suc (Suc (rpos st))\<rparr>
        in if \<not> (triple_in_range (muls st) p \<and> triple_in_range (muls st) q) then Inl OutOfBounds
           else
             let c = read_plus (muls st) p q in
             if plus_size_ok P c \<and> plus_values_ok c \<and> permit (symm P) p q then Inr (st', c)
             else plus_search3 n P mt st')"

text \<open>The nine calls on the multimap and the nine assignments to \<^verbatim>\<open>muls\<close> of the plus
  move; \<open>r\<close> is the first slot of the new triple.\<close>

definition plus_calls :: "int \<Rightarrow> pick \<Rightarrow> state \<Rightarrow> fault + state" where
  "plus_calls r c st =
     bindE (flipdel (me (slot_p c)) (mpe c) st) (\<lambda>st1.
     bindE (flipadd (me (slot_p c)) (mpen c) st1) (\<lambda>st2.
     bindE (flipdel (slot_q c) (mqd c) st2) (\<lambda>st3.
     bindE (flipadd (slot_q c) (mpd c) st3) (\<lambda>st4.
     bindE (flipdel (mf (slot_q c)) (mqf c) st4) (\<lambda>st5.
     bindE (flipadd (mf (slot_q c)) (mqfn c) st5) (\<lambda>st6.
     bindE (flipadd r (mpd c XOR mqd c) st6) (\<lambda>st7.
     bindE (flipadd (me r) (mqe c) st7) (\<lambda>st8.
     flipadd (mf r) (mqf c) st8))))))))"

definition plus_writes :: "int \<Rightarrow> pick \<Rightarrow> state \<Rightarrow> state" where
  "plus_writes r c st =
     write_slot (mf r) (mqf c) (write_slot (me r) (mqe c)
       (write_slot r (mpd c XOR mqd c)
       (write_slot (mf (slot_q c)) (mqfn c) (write_slot (me (slot_q c)) (mqe c)
       (write_slot (slot_q c) (mpd c)
       (write_slot (mf (slot_p c)) (mpf c) (write_slot (me (slot_p c)) (mpen c)
       (write_slot (slot_p c) (mpd c) st))))))))"

definition plus_commit3 :: "int \<Rightarrow> pick \<Rightarrow> state \<Rightarrow> fault + state" where
  "plus_commit3 r c st =
     (if \<not> triple_in_range (muls st) r then Inl OutOfBounds
      else bindE (plus_calls r c st) (\<lambda>st9. Inr (plus_writes r c st9)))"

text \<open>The block \<^verbatim>\<open>if (flips >= plusby) { ... }\<close>.\<close>

definition plus_phase3 :: "nat \<Rightarrow> params \<Rightarrow> rng \<Rightarrow> state \<Rightarrow> fault + state" where
  "plus_phase3 fuel P mt st =
     (if flips st \<ge> plusby st then
        let st0 = snapshot P st;
            r = first_zero (nomuls P) (muls st0)
        in bindE (plus_search3 fuel P mt st0) (\<lambda>(st1, c).
           bindE (plus_commit3 r c st1) (\<lambda>st2.
           let st3 = st2\<lparr>plus_count := plus_count st2 + 3, achieved := achieved st2 + 3\<rparr> in
           bindE (reschedule mt (rpos st3) (achieved st3) (maxplus P) (flimit P) (plimit P)
                    (flips st3) (symm P)) (\<lambda>(pb, rp).
           Inr (st3\<lparr>plusby := pb, rpos := rp\<rparr>))))
      else Inr st)"

section \<open>The main loop for \<^verbatim>\<open>symm == 3\<close>\<close>

text \<open>\<^verbatim>\<open>if (flips >= limit) { if (flips >= flimit) rcode = 1; else rcode = 2; break; }\<close>\<close>

definition limit_check :: "params \<Rightarrow> state \<Rightarrow> state outcome" where
  "limit_check P st =
     (if flips st \<ge> limit st
      then Break (st\<lparr>rcode := (if flips st \<ge> flimit P then 1 else 2)\<rparr>)
      else Continue st)"

definition iteration3 :: "nat \<Rightarrow> params \<Rightarrow> rng \<Rightarrow> state \<Rightarrow> fault + state outcome" where
  "iteration3 fuel P mt st =
     andthen (flip3 fuel P mt st) (\<lambda>st1.
     bindE (plus_phase3 fuel P mt st1) (\<lambda>st2. Inr (limit_check P st2)))"

fun loop3 :: "nat \<Rightarrow> nat \<Rightarrow> params \<Rightarrow> rng \<Rightarrow> state \<Rightarrow> fault + state" where
  "loop3 0 fuel P mt st = Inl OutOfFuel"
| "loop3 (Suc n) fuel P mt st =
     bindE (iteration3 fuel P mt st) (\<lambda>out.
     case out of Break st' \<Rightarrow> Inr st' | Continue st' \<Rightarrow> loop3 n fuel P mt st')"

section \<open>The flip and the plus move for \<^verbatim>\<open>symm == 6\<close>\<close>

text \<open>\<^verbatim>\<open>int x = p % 6; if (x < 3) pp = p + 3; else pp = p - 3;\<close>, for a slot that is not
  negative.\<close>

definition partner :: "int \<Rightarrow> int" where
  "partner p = (if p mod 6 < 3 then p + 3 else p - 3)"

text \<open>The values of the partner slots \<^verbatim>\<open>pp\<close> and \<^verbatim>\<open>qq\<close> are read before the commit; they
  are the second \<open>pick\<close>, so that \<^verbatim>\<open>mppd\<close> is its \<open>mpd\<close> and so on.\<close>

definition read_partner :: "vlong list \<Rightarrow> pick \<Rightarrow> fault + pick" where
  "read_partner ms c =
     (if triple_in_range ms (partner (slot_p c)) \<and> triple_in_range ms (partner (slot_q c))
      then Inr (read_pick ms (partner (slot_p c)) (partner (slot_q c)))
      else Inl OutOfBounds)"

definition commit_e :: "pick \<Rightarrow> state \<Rightarrow> fault + state" where
  "commit_e c st =
     bindE (flipdel (me (slot_p c)) (mpe c) st) (\<lambda>st1.
     bindE (flipadd (me (slot_p c)) (mpen c) st1) (\<lambda>st2.
     Inr (write_slot (me (slot_p c)) (mpen c) st2)))"

definition commit_f :: "pick \<Rightarrow> state \<Rightarrow> fault + state" where
  "commit_f c st =
     bindE (flipdel (mf (slot_q c)) (mqf c) st) (\<lambda>st1.
     bindE (flipadd (mf (slot_q c)) (mqfn c) st1) (\<lambda>st2.
     Inr (write_slot (mf (slot_q c)) (mqfn c) st2)))"

definition commit6 :: "pick \<Rightarrow> pick \<Rightarrow> state \<Rightarrow> fault + state" where
  "commit6 c cc st =
     bindE (commit_e c st) (\<lambda>st1.
     bindE (commit_e cc st1) (\<lambda>st2.
     bindE (commit_f c st2) (\<lambda>st3.
     commit_f cc st3)))"

definition collapse_p6 :: "pick \<Rightarrow> pick \<Rightarrow> state \<Rightarrow> fault + state" where
  "collapse_p6 c cc st =
     bindE (flipdel (slot_p c) (mpd c) st) (\<lambda>st1.
     bindE (flipdel (me (slot_p c)) (mpen c) st1) (\<lambda>st2.
     bindE (flipdel (mf (slot_p c)) (mpf c) st2) (\<lambda>st3.
     bindE (flipdel (slot_p cc) (mpd cc)
              (write_slot (mf (slot_p c)) 0 (write_slot (slot_p c) 0 st3))) (\<lambda>st4.
     bindE (flipdel (me (slot_p cc)) (mpen cc) st4) (\<lambda>st5.
     bindE (flipdel (mf (slot_p cc)) (mpf cc) st5) (\<lambda>st6.
     let st7 = write_slot (mf (slot_p cc)) 0 (write_slot (slot_p cc) 0 st6);
         st8 = (if mpen c \<noteq> 0
                then write_slot (me (slot_p cc)) 0 (write_slot (me (slot_p c)) 0 st7)
                else st7)
     in Inr (st8\<lparr>achieved := achieved st8 - 6\<rparr>)))))))"

definition collapse_q6 :: "pick \<Rightarrow> pick \<Rightarrow> state \<Rightarrow> fault + state" where
  "collapse_q6 c cc st =
     bindE (flipdel (slot_q c) (mqd c) st) (\<lambda>st1.
     bindE (flipdel (me (slot_q c)) (mqe c) st1) (\<lambda>st2.
     bindE (flipdel (mf (slot_q c)) (mqfn c) st2) (\<lambda>st3.
     bindE (flipdel (slot_q cc) (mqd cc)
              (write_slot (me (slot_q c)) 0 (write_slot (slot_q c) 0 st3))) (\<lambda>st4.
     bindE (flipdel (me (slot_q cc)) (mqe cc) st4) (\<lambda>st5.
     bindE (flipdel (mf (slot_q cc)) (mqfn cc) st5) (\<lambda>st6.
     let st7 = write_slot (me (slot_q cc)) 0 (write_slot (slot_q cc) 0 st6);
         st8 = (if mqfn c \<noteq> 0
                then write_slot (mf (slot_q cc)) 0 (write_slot (mf (slot_q c)) 0 st7)
                else st7)
     in Inr (st8\<lparr>achieved := achieved st8 - 6\<rparr>)))))))"

definition apply_flip6 :: "params \<Rightarrow> rng \<Rightarrow> pick \<Rightarrow> state \<Rightarrow> fault + state outcome" where
  "apply_flip6 P mt c st =
     bindE (read_partner (muls st) c) (\<lambda>cc.
     bindE (commit6 c cc st) (\<lambda>st2.
     andthen (if mpen c = 0 \<or> (mpd c = mpd cc \<and> mpen c = mpen cc \<and> mpf c = mpf cc)
              then bindE (collapse_p6 c cc st2) (after_collapse P mt 6)
              else Inr (Continue st2)) (\<lambda>st3.
     if mqfn c = 0 \<or> (mqd c = mqd cc \<and> mqe c = mqe cc \<and> mqfn c = mqfn cc)
     then bindE (collapse_q6 c cc st3) (after_collapse P mt 6)
     else Inr (Continue st3))))"

definition flip6 :: "nat \<Rightarrow> params \<Rightarrow> rng \<Rightarrow> state \<Rightarrow> fault + state outcome" where
  "flip6 fuel P mt st =
     bindE (sample_pair fuel P mt (st\<lparr>flips := flips st + 6\<rparr>)) (\<lambda>(st1, co).
     case co of
       None \<Rightarrow> Inr (Break (st1\<lparr>rcode := 6\<rparr>))
     | Some c \<Rightarrow> apply_flip6 P mt c st1)"

text \<open>The search of the plus move tests the candidate and its partner.\<close>

fun plus_search6 :: "nat \<Rightarrow> params \<Rightarrow> rng \<Rightarrow> state \<Rightarrow> fault + (state \<times> pick \<times> pick)" where
  "plus_search6 0 P mt st = Inl OutOfFuel"
| "plus_search6 (Suc n) P mt st =
     (if (word_of_int (nomuls P) :: vlong) = 0 then Inl DivByZero
      else
        let p = random_slot (mt (rpos st)) (nomuls P);
            q = random_slot (mt (Suc (rpos st))) (nomuls P);
            st' = st\<lparr>rpos := Suc (Suc (rpos st))\<rparr>
        in if \<not> (triple_in_range (muls st) p \<and> triple_in_range (muls st) q
                 \<and> triple_in_range (muls st) (partner p) \<and> triple_in_range (muls st) (partner q))
           then Inl OutOfBounds
           else
             let c = read_plus (muls st) p q;
                 cc = read_plus (muls st) (partner p) (partner q)
             in if plus_size_ok P c \<and> plus_values_ok c \<and> plus_values_ok cc \<and> permit (symm P) p q
                then Inr (st', c, cc)
                else plus_search6 n P mt st')"

text \<open>The eighteen calls on the multimap, the nine for \<^verbatim>\<open>p\<close>, \<^verbatim>\<open>q\<close>, \<^verbatim>\<open>r\<close> before the
  nine for \<^verbatim>\<open>pp\<close>, \<^verbatim>\<open>qq\<close>, \<^verbatim>\<open>rr\<close>, and then the eighteen assignments.\<close>

definition plus_commit6 :: "int \<Rightarrow> pick \<Rightarrow> pick \<Rightarrow> state \<Rightarrow> fault + state" where
  "plus_commit6 r c cc st =
     (if \<not> (triple_in_range (muls st) r \<and> triple_in_range (muls st) (r + 3)) then Inl OutOfBounds
      else
        bindE (plus_calls r c st) (\<lambda>st1.
        bindE (plus_calls (r + 3) cc st1) (\<lambda>st2.
        Inr (plus_writes (r + 3) cc (plus_writes r c st2)))))"

definition plus_phase6 :: "nat \<Rightarrow> params \<Rightarrow> rng \<Rightarrow> state \<Rightarrow> fault + state" where
  "plus_phase6 fuel P mt st =
     (if flips st \<ge> plusby st then
        let st0 = snapshot P st;
            r = first_zero (nomuls P) (muls st0)
        in bindE (plus_search6 fuel P mt st0) (\<lambda>(st1, c, cc).
           bindE (plus_commit6 r c cc st1) (\<lambda>st2.
           let st3 = st2\<lparr>plus_count := plus_count st2 + 6, achieved := achieved st2 + 6\<rparr> in
           bindE (reschedule mt (rpos st3) (achieved st3) (maxplus P) (flimit P) (plimit P)
                    (flips st3) (symm P)) (\<lambda>(pb, rp).
           Inr (st3\<lparr>plusby := pb, rpos := rp\<rparr>))))
      else Inr st)"

definition iteration6 :: "nat \<Rightarrow> params \<Rightarrow> rng \<Rightarrow> state \<Rightarrow> fault + state outcome" where
  "iteration6 fuel P mt st =
     andthen (flip6 fuel P mt st) (\<lambda>st1.
     bindE (plus_phase6 fuel P mt st1) (\<lambda>st2. Inr (limit_check P st2)))"

fun loop6 :: "nat \<Rightarrow> nat \<Rightarrow> params \<Rightarrow> rng \<Rightarrow> state \<Rightarrow> fault + state" where
  "loop6 0 fuel P mt st = Inl OutOfFuel"
| "loop6 (Suc n) fuel P mt st =
     bindE (iteration6 fuel P mt st) (\<lambda>out.
     case out of Break st' \<Rightarrow> Inr st' | Continue st' \<Rightarrow> loop6 n fuel P mt st')"

section \<open>The program\<close>

text \<open>What is written when the loops are left: the first line with \<^verbatim>\<open>rcode\<close>, and then
  \<^verbatim>\<open>best\<close> if \<^verbatim>\<open>minmuls < achieved\<close> and \<^verbatim>\<open>muls\<close> otherwise.\<close>

definition final_write :: "params \<Rightarrow> state \<Rightarrow> state" where
  "final_write P st =
     st\<lparr>outfile := Some (Outfile (first_line P st (rcode st))
                          (if minmuls st < achieved st then best st else muls st))\<rparr>"

text \<open>\<^verbatim>\<open>main\<close>, with the stream of the generator \<^verbatim>\<open>std::mt19937 mt(rseed)\<close>, the prior
  content of the raw arrays and the bound on the unfolding of the loops as parameters.\<close>

definition main :: "nat \<Rightarrow> rawmem \<Rightarrow> rng \<Rightarrow> input \<Rightarrow> fault + state" where
  "main fuel g mt inp =
     bindE (startup g mt inp) (\<lambda>st0.
     bindE (if symm inp = 3 then loop3 fuel fuel (params_of inp) mt st0 else Inr st0) (\<lambda>st1.
     bindE (if symm inp = 6 then loop6 fuel fuel (params_of inp) mt st1 else Inr st1) (\<lambda>st2.
     Inr (final_write (params_of inp) st2))))"

section \<open>The dictionary as a relation between keys and values\<close>

text \<open>
  What an \<^verbatim>\<open>fgdict\<close> holds: key \<open>k\<close> is in cell \<open>i\<close> of its bucket, the dictionary has
  the key, and it maps the key to a value.  A dictionary is in order when no bucket holds
  more than its 16 cells, the keys of a bucket differ, and each key is in the bucket of
  its hash.
\<close>

definition has_at :: "fgdict \<Rightarrow> vlong \<Rightarrow> int \<Rightarrow> bool" where
  "has_at d k i = (0 \<le> i \<and> i < dcount d (hash k) \<and> dkey d (hash k + i) = k)"

definition present :: "fgdict \<Rightarrow> vlong \<Rightarrow> bool" where
  "present d k = (\<exists>i. has_at d k i)"

definition maps_to :: "fgdict \<Rightarrow> vlong \<Rightarrow> int \<Rightarrow> bool" where
  "maps_to d k v = (\<exists>i. has_at d k i \<and> dvalue d (hash k + i) = v)"

definition dict_ok :: "fgdict \<Rightarrow> bool" where
  "dict_ok d = ((\<forall>k. 0 \<le> dcount d (hash k) \<and> dcount d (hash k) \<le> 16)
     \<and> (\<forall>k i j. 0 \<le> j \<and> j < i \<and> i < dcount d (hash k)
           \<longrightarrow> dkey d (hash k + i) \<noteq> dkey d (hash k + j))
     \<and> (\<forall>k i. 0 \<le> i \<and> i < dcount d (hash k) \<longrightarrow> hash (dkey d (hash k + i)) = hash k))"

section \<open>Concrete inputs\<close>

text \<open>Raw arrays that hold zeros, and a generator that returns one number for ever.\<close>

definition blank_memory :: rawmem where
  "blank_memory = \<lparr>raw_unarray = (\<lambda>_. 0), raw_ucount = (\<lambda>_. 0), raw_ukey = (\<lambda>_. 0),
     raw_uvalue = (\<lambda>_. 0), raw_tcount = (\<lambda>_. 0), raw_tkey = (\<lambda>_. 0), raw_tvalue = (\<lambda>_. 0)\<rparr>"

definition rng_const :: "32 word \<Rightarrow> rng" where
  "rng_const w = (\<lambda>_. w)"

text \<open>Scenario S1 of the specification: one triple, no colliding value.\<close>

definition S1_input :: input where
  "S1_input = \<lparr>nomuls = 3, target = 0, flimit = 1000, plimit = 10, termination_mode = 0, rseed = 1,
     symm = 3, maxplus = 0, split_pct = 50, maxsize = 0, in_flips = 0, in_muls = [1, 2, 3]\<rparr>"

text \<open>Scenario S2: two equal triples, with the target as a parameter.  In its start state
  the sample 196608 (bit 16 set, a multiple of 3) draws the pair \<open>p = 0\<close>, \<open>q = 3\<close>.\<close>

definition S2_input :: "int \<Rightarrow> input" where
  "S2_input tgt = \<lparr>nomuls = 6, target = tgt, flimit = 1000, plimit = 10, termination_mode = 0,
     rseed = 1, symm = 3, maxplus = 0, split_pct = 50, maxsize = 0, in_flips = 0,
     in_muls = [1, 2, 3, 1, 2, 3]\<rparr>"

definition S2_pick :: pick where
  "S2_pick = \<lparr>slot_p = 0, slot_q = 3, mpd = 1, mpe = 3, mpf = 2, mqd = 1, mqe = 3, mqf = 2,
     mpen = 0, mqfn = 0\<rparr>"





text \<open>A generator that returns the numbers of a list and then zeros.\<close>

definition rng_of :: "32 word list \<Rightarrow> rng" where
  "rng_of ws i = (if i < length ws then ws ! i else 0)"


text \<open>A state in which a plus move with a recovery snapshot is due: the start state of an
  input with two live triples and one free triple, at more than \<open>5 * 10 ^ 9\<close> flips, with
  a \<^verbatim>\<open>best\<close> that differs from \<^verbatim>\<open>muls\<close> and \<^verbatim>\<open>minmuls < achieved\<close>.\<close>

definition snap_input :: input where
  "snap_input = \<lparr>nomuls = 9, target = 0, flimit = 6000000000, plimit = 0, termination_mode = 0,
     rseed = 1, symm = 3, maxplus = 100, split_pct = 50, maxsize = 0, in_flips = 5000000010,
     in_muls = [1, 2, 4, 8, 16, 32, 0, 0, 0]\<rparr>"

definition snap_state :: state where
  "snap_state = (projr (startup blank_memory (rng_of [0, 3]) snap_input))
     \<lparr>best := [1, 2, 4, 0, 0, 0, 0, 0, 0], minmuls := 3\<rparr>"

text \<open>The lengths of the two vectors of the decomposition.\<close>

definition lens :: "state \<Rightarrow> nat \<times> nat" where
  "lens st = (length (muls st), length (best st))"

text \<open>An input whose only colliding value has both its slots in one triple, with a size
  limit: no pair is ever permitted.\<close>

definition stuck_input :: "int \<Rightarrow> input" where
  "stuck_input sy = \<lparr>nomuls = 6, target = 0, flimit = 1000, plimit = 10, termination_mode = 0,
     rseed = 1, symm = sy, maxplus = 0, split_pct = 50, maxsize = 1, in_flips = 0,
     in_muls = [1, 1, 2, 3, 4, 5]\<rparr>"

definition stuck_state :: "int \<Rightarrow> state" where
  "stuck_state sy = projr (startup blank_memory (rng_const 0) (stuck_input sy))"

definition flips_after :: "state outcome \<Rightarrow> vlong" where
  "flips_after out = flips (state_of out)"

definition rcode_after :: "state outcome \<Rightarrow> int" where
  "rcode_after out = rcode (state_of out)"

text \<open>What a failed attempt changes: the position of the generator, and the hash of the last
  lookup in \<^verbatim>\<open>uniques\<close>.\<close>

definition touched :: "int \<Rightarrow> nat \<Rightarrow> state \<Rightarrow> state" where
  "touched h k st = st\<lparr>uniques := (uniques st)\<lparr>lasthash := h\<rparr>, rpos := k\<rparr>"


section \<open>Evaluation of the model on concrete inputs\<close>

lemmas dict_ev = fgdict_new_def contains_def hash_def getvalue_def getvaluex_def add_def addx_def
  remove_def removex_def replace_def replacex_def find_key.simps scan_key.simps remove_loop.simps

lemmas mm_ev = flipdel_def flipadd_def uncollide_def unshift.simps

lemmas start_ev = startup_def index_slot_def empty_multimap_def reschedule_def updatelimit_def
  vdiv_def upto.simps multimap.defs

lemmas flip_ev = draw_def attempt_def read_pick_def in_range_def triple_in_range_def me_def mf_def
  accept_def permit_def signed_divide_int_def sample_pair_def copy_best_def after_collapse_def andthen_def write_slot_def
  commit3_def collapse_p3_def collapse_q3_def flip3_def apply_flip3_def params_of_def params.defs

lemmas plus_ev = plus_phase3_def snapshot_def first_zero_def plus_search3.simps random_slot_def
  read_plus_def plus_size_ok_def plus_values_ok_def plus_commit3_def plus_calls_def plus_writes_def
  limit_check_def iteration3_def main_def final_write_def first_line_def rng_of_def


section \<open>The termination policy\<close>









section \<open>The plus schedule\<close>

text \<open>The comparison \<^verbatim>\<open>plimit < 0\<close> of an unsigned number never holds, so the branch that
  consults the generator is never taken.\<close>

lemma reschedule_unsigned:
  "reschedule mt rp ach mp flim plim fl sy
     = Inr (if ach \<ge> mp then flim * 1007 else fl + plim, rp)"
  by (simp add: reschedule_def)

text \<open>
  Claim C5.  With \<^verbatim>\<open>plimit < 0\<close> and \<^verbatim>\<open>achieved < maxplus\<close> the new deadline is to be
  \<^verbatim>\<open>flips + symm + rng() mod (-2 * plimit)\<close>, so that \<^verbatim>\<open>plusby - flips\<close> lies between
  \<^verbatim>\<open>symm\<close> and \<^verbatim>\<open>symm + 2 * |plimit| - 1\<close>.  The program reads the token \<^verbatim>\<open>-5\<close> into
  the unsigned \<^verbatim>\<open>plimit\<close> as \<open>2 ^ 64 - 5\<close>.  With \<^verbatim>\<open>flips = 3\<close>, \<^verbatim>\<open>symm = 3\<close>,
  \<^verbatim>\<open>achieved = 6\<close> and \<^verbatim>\<open>maxplus = 100\<close> it sets \<^verbatim>\<open>plusby\<close> to \<open>flips + plimit\<close>, which
  is \<open>2 ^ 64 - 2\<close>, and does not consult the generator: \<^verbatim>\<open>plusby - flips\<close> is
  \<open>2 ^ 64 - 5\<close> and not one of \<open>3, ..., 12\<close>.
\<close>

theorem reschedule_negative_plimit:
  "reschedule mt 0 6 100 1000 (- 5) 3 3 = Inr (18446744073709551614, 0)"
  by (simp add: reschedule_def)

section \<open>The scenarios S1 and S2\<close>

text \<open>
  Claim C4.  When no value collides at the start of a flip the program is to stop with
  \<^verbatim>\<open>rcode = -1\<close>.  On the input of scenario S1 the first sampling attempt computes
  \<^verbatim>\<open>sample % twoplusl.size()\<close> with an empty list, whatever the generator returns: the
  program divides by zero and writes no \<^verbatim>\<open>rcode\<close>.
\<close>

theorem no_collision_divides_by_zero:
  "main (Suc 0) blank_memory mt S1_input = Inl DivByZero"
  by (simp add: main_def S1_input_def blank_memory_def iteration3_def dict_ev mm_ev start_ev
        flip_ev Let_def)

text \<open>In the start state of scenario S2 the sample 196608 draws \<open>p = 0\<close> and \<open>q = 3\<close>.\<close>

lemma S2_attempt:
  "mt 0 = 196608 \<Longrightarrow>
   bindE (startup blank_memory mt (S2_input tgt)) (\<lambda>st. map_sum id snd (attempt mt st))
     = Inr S2_pick"
  by (simp add: S2_input_def S2_pick_def blank_memory_def dict_ev mm_ev start_ev flip_ev Let_def)



section \<open>What the calls on the multimap leave alone\<close>

lemma more_fields:
  "multimap.more (st' :: state) = multimap.more (st :: state) \<Longrightarrow>
   muls st' = muls st \<and> best st' = best st \<and> flips st' = flips st \<and> plus_count st' = plus_count st
   \<and> plusby st' = plusby st \<and> recovery st' = recovery st \<and> limit st' = limit st
   \<and> achieved st' = achieved st \<and> minmuls st' = minmuls st \<and> rcode st' = rcode st
   \<and> rpos st' = rpos st \<and> outfile st' = outfile st"
  by (cases st; cases st') simp

lemma flipdel_more: "flipdel r v m = Inr m' \<Longrightarrow> multimap.more m' = multimap.more m"
  by (auto simp: flipdel_def bindE_eq_Inr Let_def split: if_splits prod.splits)

lemma flipadd_more: "flipadd r v m = Inr m' \<Longrightarrow> multimap.more m' = multimap.more m"
  by (auto simp: flipadd_def bindE_eq_Inr Let_def split: if_splits prod.splits bool.splits)


lemma bindE_InrE: "bindE m f = Inr y \<Longrightarrow> (\<And>x. m = Inr x \<Longrightarrow> f x = Inr y \<Longrightarrow> P) \<Longrightarrow> P"
  by (auto simp: bindE_eq_Inr)

text \<open>What the calls on the multimap leave alone.\<close>

lemma flipdel_kept:
  "flipdel r v (st :: state) = Inr st' \<Longrightarrow>
   outfile st' = outfile st \<and> rcode st' = rcode st \<and> muls st' = muls st \<and> best st' = best st
   \<and> flips st' = flips st \<and> recovery st' = recovery st \<and> achieved st' = achieved st
   \<and> minmuls st' = minmuls st \<and> plus_count st' = plus_count st \<and> rpos st' = rpos st
   \<and> plusby st' = plusby st \<and> limit st' = limit st"
  using more_fields[of st' st] flipdel_more[of r v st st'] by simp

lemma flipadd_kept:
  "flipadd r v (st :: state) = Inr st' \<Longrightarrow>
   outfile st' = outfile st \<and> rcode st' = rcode st \<and> muls st' = muls st \<and> best st' = best st
   \<and> flips st' = flips st \<and> recovery st' = recovery st \<and> achieved st' = achieved st
   \<and> minmuls st' = minmuls st \<and> plus_count st' = plus_count st \<and> rpos st' = rpos st
   \<and> plusby st' = plusby st \<and> limit st' = limit st"
  using more_fields[of st' st] flipadd_more[of r v st st'] by simp

lemma write_slot_fields [simp]:
  "outfile (write_slot s v st) = outfile st" "rcode (write_slot s v st) = rcode st"
  "best (write_slot s v st) = best st" "length (muls (write_slot s v st)) = length (muls st)"
  "flips (write_slot s v st) = flips st" "recovery (write_slot s v st) = recovery st"
  "achieved (write_slot s v st) = achieved st" "minmuls (write_slot s v st) = minmuls st"
  "plus_count (write_slot s v st) = plus_count st" "rpos (write_slot s v st) = rpos st"
  "plusby (write_slot s v st) = plusby st" "limit (write_slot s v st) = limit st"
  by (simp_all add: write_slot_def)

lemma plus_calls_kept:
  "plus_calls r c st = Inr st' \<Longrightarrow>
   outfile st' = outfile st \<and> rcode st' = rcode st \<and> muls st' = muls st \<and> best st' = best st
   \<and> flips st' = flips st \<and> recovery st' = recovery st \<and> achieved st' = achieved st
   \<and> minmuls st' = minmuls st \<and> plus_count st' = plus_count st \<and> rpos st' = rpos st
   \<and> plusby st' = plusby st \<and> limit st' = limit st"
  unfolding plus_calls_def
  by (auto elim!: bindE_InrE dest!: flipdel_kept flipadd_kept)

lemma plus_writes_fields [simp]:
  "outfile (plus_writes r c st) = outfile st" "rcode (plus_writes r c st) = rcode st"
  "best (plus_writes r c st) = best st" "length (muls (plus_writes r c st)) = length (muls st)"
  "flips (plus_writes r c st) = flips st" "recovery (plus_writes r c st) = recovery st"
  "achieved (plus_writes r c st) = achieved st" "minmuls (plus_writes r c st) = minmuls st"
  "plus_count (plus_writes r c st) = plus_count st" "rpos (plus_writes r c st) = rpos st"
  "plusby (plus_writes r c st) = plusby st" "limit (plus_writes r c st) = limit st"
  by (simp_all add: plus_writes_def)

lemma plus_search3_kept:
  "plus_search3 n P mt st = Inr (st', c) \<Longrightarrow> \<exists>k. st' = st\<lparr>rpos := k\<rparr>"
proof (induction n arbitrary: st)
  case 0
  then show ?case by simp
next
  case (Suc n)
  then show ?case
    by (fastforce simp: Let_def split: if_splits)
qed

lemma plus_search6_kept:
  "plus_search6 n P mt st = Inr (st', c, cc) \<Longrightarrow> \<exists>k. st' = st\<lparr>rpos := k\<rparr>"
proof (induction n arbitrary: st)
  case 0
  then show ?case by simp
next
  case (Suc n)
  then show ?case
    by (fastforce simp: Let_def split: if_splits)
qed

lemma snapshot_fields [simp]:
  "rcode (snapshot P st) = rcode st" "muls (snapshot P st) = muls st" "best (snapshot P st) = best st"
  "flips (snapshot P st) = flips st"
  by (simp_all add: snapshot_def)

section \<open>The recovery snapshot\<close>

text \<open>
  Claim C10.  A recovery snapshot is written in the plus phase, when \<^verbatim>\<open>flips >= plusby\<close>
  and \<^verbatim>\<open>flips >= recovery\<close>.  The file it writes has the number 2 in the place of
  \<^verbatim>\<open>rcode\<close> (the third number of its first line) and the current \<^verbatim>\<open>muls\<close> as its body,
  whatever \<^verbatim>\<open>minmuls\<close>, \<^verbatim>\<open>achieved\<close> and \<^verbatim>\<open>best\<close> are; the plus move that follows
  leaves the file as it is, and the variable \<^verbatim>\<open>rcode\<close> is the same after the plus phase
  as before (for \<^verbatim>\<open>symm == 3\<close> and for \<^verbatim>\<open>symm == 6\<close>).
\<close>

theorem snapshot_in_plus_phase:
  assumes "flips st \<ge> plusby st" and "flips st \<ge> recovery st"
  shows "(plus_phase3 fuel P mt st = Inr st' \<longrightarrow>
           outfile st' = Some (Outfile (first_line P st 2) (muls st)) \<and> rcode st' = rcode st)
       \<and> (plus_phase6 fuel P mt st = Inr st' \<longrightarrow>
           outfile st' = Some (Outfile (first_line P st 2) (muls st)) \<and> rcode st' = rcode st)
       \<and> first_line P st 2 ! 2 = 2
       \<and> outfile (snapshot P st) = Some (Outfile (first_line P st 2) (muls st))"
proof (intro conjI impI)
  have snap: "outfile (snapshot P st) = Some (Outfile (first_line P st 2) (muls st))"
    using assms by (simp add: snapshot_def)
  then show "outfile (snapshot P st) = Some (Outfile (first_line P st 2) (muls st))" .
  show "first_line P st 2 ! 2 = 2"
    by (simp add: first_line_def)
  {
    assume "plus_phase3 fuel P mt st = Inr st'"
    then obtain st1 c st2 where
      s: "plus_search3 fuel P mt (snapshot P st) = Inr (st1, c)"
      and c: "plus_commit3 (first_zero (nomuls P) (muls st)) c st1 = Inr st2"
      and e: "outfile st' = outfile st2 \<and> rcode st' = rcode st2"
      using assms(1)
      by (auto simp: plus_phase3_def Let_def elim!: bindE_InrE)
    from plus_search3_kept[OF s] obtain k where st1: "st1 = (snapshot P st)\<lparr>rpos := k\<rparr>" ..
    from c have "outfile st2 = outfile st1 \<and> rcode st2 = rcode st1"
      by (auto simp: plus_commit3_def split: if_splits elim!: bindE_InrE dest!: plus_calls_kept)
    with st1 snap e show "outfile st' = Some (Outfile (first_line P st 2) (muls st))" and "rcode st' = rcode st"
      by simp_all
  }
  {
    assume "plus_phase6 fuel P mt st = Inr st'"
    then obtain st1 c cc st2 where
      s: "plus_search6 fuel P mt (snapshot P st) = Inr (st1, c, cc)"
      and c: "plus_commit6 (first_zero (nomuls P) (muls st)) c cc st1 = Inr st2"
      and e: "outfile st' = outfile st2 \<and> rcode st' = rcode st2"
      using assms(1)
      by (auto simp: plus_phase6_def Let_def elim!: bindE_InrE)
    from plus_search6_kept[OF s] obtain k where st1: "st1 = (snapshot P st)\<lparr>rpos := k\<rparr>" ..
    from c have "outfile st2 = outfile st1 \<and> rcode st2 = rcode st1"
      by (auto simp: plus_commit6_def split: if_splits elim!: bindE_InrE dest!: plus_calls_kept)
    with st1 snap e show "outfile st' = Some (Outfile (first_line P st 2) (muls st))" and "rcode st' = rcode st"
      by simp_all
  }
qed

lemma snap_state_fields:
  "flips snap_state = 5000000010 \<and> plusby snap_state = 5000000010 \<and> recovery snap_state = 5000000000
   \<and> rcode snap_state = 0 \<and> achieved snap_state = 6 \<and> minmuls snap_state = 3 \<and> plus_count snap_state = 0
   \<and> muls snap_state = [1, 2, 4, 8, 16, 32, 0, 0, 0] \<and> best snap_state = [1, 2, 4, 0, 0, 0, 0, 0, 0]"
  by (simp add: snap_state_def snap_input_def blank_memory_def rng_of_def dict_ev mm_ev start_ev Let_def)

lemma snap_phase_runs:
  "\<exists>st'. plus_phase3 (Suc 0) (params_of snap_input) (rng_of [0, 3]) snap_state = Inr st'"
  by (simp add: snap_state_def snap_input_def blank_memory_def plus_ev dict_ev mm_ev start_ev flip_ev Let_def)

theorem snapshot_in_plus_phase_witness:
  "plusby snap_state \<le> flips snap_state \<and> recovery snap_state \<le> flips snap_state
   \<and> minmuls snap_state < achieved snap_state \<and> best snap_state \<noteq> muls snap_state \<and> rcode snap_state = 0
   \<and> map_sum id outfile (plus_phase3 (Suc 0) (params_of snap_input) (rng_of [0, 3]) snap_state)
       = Inr (Some (Outfile [9, 5000000010, 2, 0, 6000000000, 0, 0, 1, 3, 100, 6, 3, 0]
                      [1, 2, 4, 8, 16, 32, 0, 0, 0]))
   \<and> map_sum id rcode (plus_phase3 (Suc 0) (params_of snap_input) (rng_of [0, 3]) snap_state) = Inr 0"
proof -
  from snap_phase_runs obtain st' where
    r: "plus_phase3 (Suc 0) (params_of snap_input) (rng_of [0, 3]) snap_state = Inr st'" ..
  have h: "plusby snap_state \<le> flips snap_state" "recovery snap_state \<le> flips snap_state"
    using snap_state_fields by simp_all
  from snapshot_in_plus_phase[OF h, of "Suc 0" "params_of snap_input" "rng_of [0, 3]" st'] r
    snap_state_fields
  have "outfile st' = Some (Outfile [9, 5000000010, 2, 0, 6000000000, 0, 0, 1, 3, 100, 6, 3, 0]
                      [1, 2, 4, 8, 16, 32, 0, 0, 0]) \<and> rcode st' = 0"
    by (simp add: first_line_def params_of_def params.defs snap_input_def)
  with r snap_state_fields show ?thesis
    by simp
qed

section \<open>The lengths of \<^verbatim>\<open>muls\<close> and \<^verbatim>\<open>best\<close>\<close>


lemma lens_simps [simp]:
  "lens (write_slot s v st) = lens st"
  "lens (st\<lparr>rpos := rp\<rparr>) = lens st"
  "lens (st\<lparr>flips := f\<rparr>) = lens st"
  "lens (st\<lparr>rcode := rc\<rparr>) = lens st"
  "lens (st\<lparr>achieved := a\<rparr>) = lens st"
  "lens (st\<lparr>minmuls := mm\<rparr>) = lens st"
  "lens (st\<lparr>limit := l\<rparr>) = lens st"
  "lens (st\<lparr>plusby := pb\<rparr>) = lens st"
  "lens (st\<lparr>plus_count := pc\<rparr>) = lens st"
  "lens (st\<lparr>uniques := u\<rparr>) = lens st"
  "lens (st\<lparr>outfile := f'\<rparr>) = lens st"
  "lens (st\<lparr>recovery := rv\<rparr>) = lens st"
  by (simp_all add: lens_def write_slot_def)








lemma length_copy_best [simp]: "length (copy_best n ms bs) = length bs"
proof -
  have "length (fold (\<lambda>l b. b[nat l := ms ! nat l]) xs bs) = length bs" for xs
    by (induction xs arbitrary: bs) simp_all
  then show ?thesis by (simp add: copy_best_def)
qed









lemma lens_plus_writes [simp]: "lens (plus_writes r c st) = lens st"
  by (simp add: lens_def)

lemma lens_snapshot [simp]: "lens (snapshot P st) = lens st"
  by (simp add: snapshot_def)



lemma limit_check_lens [simp]: "lens (state_of (limit_check P st)) = lens st"
  by (simp add: limit_check_def)














section \<open>The file written on termination\<close>




section \<open>A thousand failed attempts\<close>

lemma touched_self: "touched (lasthash (uniques st)) (rpos st) st = st"
  by (simp add: touched_def)

lemma touched_touched [simp]: "touched h k (touched h' k' st) = touched h k st"
  by (simp add: touched_def)

lemma getvalue_lasthash: "getvalue d k = Inr (d', b) \<Longrightarrow> d' = d\<lparr>lasthash := hash k\<rparr>"
  by (auto simp: getvalue_def Let_def elim!: bindE_InrE)

lemma draw_touched:
  "draw w (st :: state) = Inr (st', p, q) \<Longrightarrow> \<exists>h. st' = st\<lparr>uniques := (uniques st)\<lparr>lasthash := h\<rparr>\<rparr>"
  by (auto simp: draw_def Let_def split: if_splits elim!: bindE_InrE dest!: getvalue_lasthash)

lemma attempt_touched:
  "attempt mt st = Inr (st', c) \<Longrightarrow> \<exists>h. st' = touched h (Suc (rpos st)) st"
  by (auto simp: attempt_def touched_def split: if_splits elim!: bindE_InrE dest!: draw_touched)

lemma sample_bounded_touched:
  "sample_bounded n P mt st = Inr (st', None) \<Longrightarrow> \<exists>h. st' = touched h (rpos st + n) st"
proof (induction n arbitrary: st)
  case 0
  then show ?case using touched_self[of st] by (auto intro: exI[of _ "lasthash (uniques st)"])
next
  case (Suc n)
  from Suc.prems obtain st1 c where a: "attempt mt st = Inr (st1, c)"
    and r: "sample_bounded n P mt st1 = Inr (st', None)"
    by (auto split: if_splits elim!: bindE_InrE)
  from attempt_touched[OF a] obtain h1 where h1: "st1 = touched h1 (Suc (rpos st)) st" ..
  from Suc.IH[OF r] obtain h where "st' = touched h (rpos st1 + n) st1" ..
  with h1 have "st' = touched h (rpos st + Suc n) st" by (simp add: touched_def)
  then show ?case ..
qed

lemma stuck_attempt:
  assumes "sy = 3 \<or> sy = 6"
  shows "attempt (rng_const 0) (touched h k ((stuck_state sy)\<lparr>flips := f\<rparr>))
     = Inr (touched 16 (Suc k) ((stuck_state sy)\<lparr>flips := f\<rparr>), read_pick [1, 1, 2, 3, 4, 5] 1 0)"
  using assms
  by (elim disjE)
     (simp_all add: stuck_state_def stuck_input_def touched_def rng_const_def blank_memory_def
        dict_ev mm_ev start_ev flip_ev Let_def)

lemma stuck_reject:
  assumes "sy = 3 \<or> sy = 6"
  shows "\<not> accept (params_of (stuck_input sy)) (read_pick [1, 1, 2, 3, 4, 5] 1 0)"
  using assms
  by (elim disjE) (simp_all add: stuck_input_def flip_ev signed_divide_int_def)

lemma stuck_sample:
  assumes "sy = 3 \<or> sy = 6"
  shows "sample_bounded n (params_of (stuck_input sy)) (rng_const 0)
           (touched h k ((stuck_state sy)\<lparr>flips := f\<rparr>))
     = Inr (touched (if n = 0 then h else 16) (k + n) ((stuck_state sy)\<lparr>flips := f\<rparr>), None)"
proof (induction n arbitrary: h k)
  case 0
  show ?case by simp
next
  case (Suc n)
  show ?case
    by (simp add: stuck_attempt[OF assms] stuck_reject[OF assms] Suc.IH)
qed

lemma stuck_state_fields:
  assumes "sy = 3 \<or> sy = 6"
  shows "flips (stuck_state sy) = 0 \<and> rpos (stuck_state sy) = 0
       \<and> lasthash (uniques (stuck_state sy)) = 80 \<and> rcode (stuck_state sy) = 0"
  using assms
  by (elim disjE)
     (simp_all add: stuck_state_def stuck_input_def rng_const_def blank_memory_def
        dict_ev mm_ev start_ev Let_def)

lemma stuck_thousand:
  assumes "sy = 3 \<or> sy = 6"
  shows "sample_bounded 1000 (params_of (stuck_input sy)) (rng_const 0)
           ((stuck_state sy)\<lparr>flips := f\<rparr>)
     = Inr (touched 16 1000 ((stuck_state sy)\<lparr>flips := f\<rparr>), None)"
  using stuck_sample[OF assms, of 1000 "lasthash (uniques ((stuck_state sy)\<lparr>flips := f\<rparr>))"
      "rpos ((stuck_state sy)\<lparr>flips := f\<rparr>)" f]
    touched_self[of "(stuck_state sy)\<lparr>flips := f\<rparr>"] stuck_state_fields[OF assms]
  by simp

text \<open>
  Claim C6, as the specification states it, fails: the iteration in which a thousand
  attempts fail does change the state.  In the start state of an input whose only
  collision lies inside one triple, with \<^verbatim>\<open>maxsize = 1\<close>, the counter \<^verbatim>\<open>flips\<close> is 0 before
  the iteration and 3 when the loop is left with \<^verbatim>\<open>rcode = 6\<close>.
\<close>

theorem stuck_flip_changes_state:
  "flips (stuck_state 3) = 0
   \<and> map_sum id flips_after (flip3 (Suc 0) (params_of (stuck_input 3)) (rng_const 0) (stuck_state 3))
       = Inr 3
   \<and> map_sum id rcode_after (flip3 (Suc 0) (params_of (stuck_input 3)) (rng_const 0) (stuck_state 3))
       = Inr 6"
  using stuck_thousand[of 3 "flips (stuck_state 3) + 3"] stuck_state_fields[of 3]
  by (simp add: flip3_def sample_pair_def stuck_input_def params_of_def params.defs
        flips_after_def rcode_after_def touched_def)

text \<open>
  Claim C6, amended.  When \<^verbatim>\<open>maxsize != 0\<close> and the thousand attempts of an iteration all
  fail, the loop is left with \<^verbatim>\<open>rcode = 6\<close>.  The failed iteration has added \<^verbatim>\<open>symm\<close> to
  \<^verbatim>\<open>flips\<close>, has taken a thousand numbers from the generator and has left the hash of its
  last lookup in \<^verbatim>\<open>uniques.lasthash\<close>; everything else (\<^verbatim>\<open>muls\<close>, \<^verbatim>\<open>best\<close>, the counters,
  the deadlines, the file, the content of the multimap and of the list of colliding
  values) is as before.
\<close>

theorem thousand_failures:
  assumes "maxsize P \<noteq> 0"
  shows "(sample_bounded 1000 P mt (st\<lparr>flips := flips st + 3\<rparr>) = Inr (st1, None) \<longrightarrow>
           flip3 fuel P mt st
             = Inr (Break ((touched (lasthash (uniques st1)) (rpos st + 1000) st)
                       \<lparr>flips := flips st + 3, rcode := 6\<rparr>)))
       \<and> (sample_bounded 1000 P mt (st\<lparr>flips := flips st + 6\<rparr>) = Inr (st1, None) \<longrightarrow>
           flip6 fuel P mt st
             = Inr (Break ((touched (lasthash (uniques st1)) (rpos st + 1000) st)
                       \<lparr>flips := flips st + 6, rcode := 6\<rparr>)))"
proof (intro conjI impI)
  assume a: "sample_bounded 1000 P mt (st\<lparr>flips := flips st + 3\<rparr>) = Inr (st1, None)"
  from sample_bounded_touched[OF a] obtain h where
    h: "st1 = touched h (rpos st + 1000) (st\<lparr>flips := flips st + 3\<rparr>)" by auto
  then have "lasthash (uniques st1) = h" by (simp add: touched_def)
  with h have "st1\<lparr>rcode := 6\<rparr> = (touched (lasthash (uniques st1)) (rpos st + 1000) st)
                       \<lparr>flips := flips st + 3, rcode := 6\<rparr>"
    by (simp add: touched_def)
  then show "flip3 fuel P mt st
             = Inr (Break ((touched (lasthash (uniques st1)) (rpos st + 1000) st)
                       \<lparr>flips := flips st + 3, rcode := 6\<rparr>))"
    using assms a by (simp add: flip3_def sample_pair_def)
next
  assume a: "sample_bounded 1000 P mt (st\<lparr>flips := flips st + 6\<rparr>) = Inr (st1, None)"
  from sample_bounded_touched[OF a] obtain h where
    h: "st1 = touched h (rpos st + 1000) (st\<lparr>flips := flips st + 6\<rparr>)" by auto
  then have "lasthash (uniques st1) = h" by (simp add: touched_def)
  with h have "st1\<lparr>rcode := 6\<rparr> = (touched (lasthash (uniques st1)) (rpos st + 1000) st)
                       \<lparr>flips := flips st + 6, rcode := 6\<rparr>"
    by (simp add: touched_def)
  then show "flip6 fuel P mt st
             = Inr (Break ((touched (lasthash (uniques st1)) (rpos st + 1000) st)
                       \<lparr>flips := flips st + 6, rcode := 6\<rparr>))"
    using assms a by (simp add: flip6_def sample_pair_def)
qed

theorem thousand_failures_witness:
  "maxsize (params_of (stuck_input 3)) \<noteq> 0
   \<and> sample_bounded 1000 (params_of (stuck_input 3)) (rng_const 0)
        ((stuck_state 3)\<lparr>flips := flips (stuck_state 3) + 3\<rparr>)
       = Inr (touched 16 1000 ((stuck_state 3)\<lparr>flips := 3\<rparr>), None)
   \<and> flip3 (Suc 0) (params_of (stuck_input 3)) (rng_const 0) (stuck_state 3)
       = Inr (Break ((touched 16 1000 (stuck_state 3))\<lparr>flips := 3, rcode := 6\<rparr>))
   \<and> sample_bounded 1000 (params_of (stuck_input 6)) (rng_const 0)
        ((stuck_state 6)\<lparr>flips := flips (stuck_state 6) + 6\<rparr>)
       = Inr (touched 16 1000 ((stuck_state 6)\<lparr>flips := 6\<rparr>), None)
   \<and> flip6 (Suc 0) (params_of (stuck_input 6)) (rng_const 0) (stuck_state 6)
       = Inr (Break ((touched 16 1000 (stuck_state 6))\<lparr>flips := 6, rcode := 6\<rparr>))"
proof -
  have m: "maxsize (params_of (stuck_input sy)) \<noteq> 0" for sy
    by (simp add: stuck_input_def params_of_def params.defs)
  have f3: "flips (stuck_state 3) = 0 \<and> rpos (stuck_state 3) = 0"
    and f6: "flips (stuck_state 6) = 0 \<and> rpos (stuck_state 6) = 0"
    using stuck_state_fields[of 3] stuck_state_fields[of 6] by simp_all
  note t3 = stuck_thousand[of 3 "flips (stuck_state 3) + 3"]
  note t6 = stuck_thousand[of 6 "flips (stuck_state 6) + 6"]
  from thousand_failures[OF m, of 3 "rng_const 0" "stuck_state 3"
      "touched 16 1000 ((stuck_state 3)\<lparr>flips := flips (stuck_state 3) + 3\<rparr>)" "Suc 0"]
    thousand_failures[OF m, of 6 "rng_const 0" "stuck_state 6"
      "touched 16 1000 ((stuck_state 6)\<lparr>flips := flips (stuck_state 6) + 6\<rparr>)" "Suc 0"]
    t3 t6 f3 f6 m
  show ?thesis
    by (simp add: touched_def)
qed

section \<open>The operations of the dictionary\<close>

lemma hash_mult: "\<exists>a. hash k = 16 * a \<and> 0 \<le> a"
  by (rule exI[of _ "uint (k mod 65213)"]) (simp add: hash_def)

lemma hash_nonneg [simp]: "0 \<le> hash k"
  by (simp add: hash_def)

lemma hash_apart:
  assumes "hash k \<noteq> hash k'" "0 \<le> i" "i < 16" "0 \<le> j" "j < 16"
  shows "hash k + i \<noteq> hash k' + j"
proof -
  from hash_mult[of k] hash_mult[of k'] obtain a b where "hash k = 16 * a" "hash k' = 16 * b"
    by blast
  with assms show ?thesis by arith
qed

lemma dict_ok_count: "dict_ok d \<Longrightarrow> 0 \<le> dcount d (hash k) \<and> dcount d (hash k) \<le> 16"
  by (simp add: dict_ok_def)

lemma dict_ok_distinct:
  "dict_ok d \<Longrightarrow> 0 \<le> i \<Longrightarrow> i < dcount d (hash k) \<Longrightarrow> 0 \<le> j \<Longrightarrow> j < dcount d (hash k)
   \<Longrightarrow> dkey d (hash k + i) = dkey d (hash k + j) \<Longrightarrow> i = j"
  unfolding dict_ok_def
  by (metis linorder_neqE_linordered_idom)

lemma dict_ok_hash:
  "dict_ok d \<Longrightarrow> 0 \<le> i \<Longrightarrow> i < dcount d (hash k) \<Longrightarrow> hash (dkey d (hash k + i)) = hash k"
  by (simp add: dict_ok_def)

lemma has_at_unique: "dict_ok d \<Longrightarrow> has_at d k i \<Longrightarrow> has_at d k j \<Longrightarrow> i = j"
  unfolding has_at_def by (metis dict_ok_distinct)

lemma maps_to_unique: "dict_ok d \<Longrightarrow> maps_to d k v \<Longrightarrow> maps_to d k w \<Longrightarrow> v = w"
  unfolding maps_to_def by (metis has_at_unique)

lemma maps_to_present: "maps_to d k v \<Longrightarrow> present d k"
  by (auto simp: maps_to_def present_def)

lemma present_maps_to: "present d k \<Longrightarrow> \<exists>v. maps_to d k v"
  by (auto simp: maps_to_def present_def)

lemma lasthash_irrelevant [simp]:
  "has_at (d\<lparr>lasthash := h\<rparr>) = has_at d" "present (d\<lparr>lasthash := h\<rparr>) = present d"
  "maps_to (d\<lparr>lasthash := h\<rparr>) = maps_to d" "dict_ok (d\<lparr>lasthash := h\<rparr>) = dict_ok d"
  by (simp_all add: has_at_def present_def maps_to_def dict_ok_def fun_eq_iff)

lemma scan_key_iff: "scan_key ky h k n \<longleftrightarrow> (\<exists>i. 0 \<le> i \<and> i \<le> n \<and> ky (h + i) = k)"
proof (induction ky h k n rule: scan_key.induct)
  case (1 ky h k i)
  show ?case
  proof (cases "0 \<le> i")
    case False
    then show ?thesis by (subst scan_key.simps) auto
  next
    case True
    show ?thesis
    proof (cases "ky (h + i) = k")
      case True
      with \<open>0 \<le> i\<close> show ?thesis by (subst scan_key.simps) auto
    next
      case False
      have "scan_key ky h k i = scan_key ky h k (i - 1)"
        using \<open>0 \<le> i\<close> False by (subst scan_key.simps) simp
      also have "\<dots> \<longleftrightarrow> (\<exists>j. 0 \<le> j \<and> j \<le> i - 1 \<and> ky (h + j) = k)"
        using "1.IH"[OF \<open>0 \<le> i\<close> False] .
      also have "\<dots> \<longleftrightarrow> (\<exists>j. 0 \<le> j \<and> j \<le> i \<and> ky (h + j) = k)"
        using False by (metis add_diff_cancel_right' diff_add_cancel zle_diff1_eq le_less order.strict_iff_order)
      finally show ?thesis .
    qed
  qed
qed

lemma contains_spec: "dict_ok d \<Longrightarrow> contains d k = (d\<lparr>lasthash := hash k\<rparr>, present d k)"
proof -
  assume ok: "dict_ok d"
  let ?c = "dcount d (hash k)"
  have c0: "0 \<le> ?c" using dict_ok_count[OF ok] by simp
  have "(if ?c = 0 then False else if ?c = 1 then dkey d (hash k) = k
         else scan_key (dkey d) (hash k) k (?c - 1)) = present d k"
  proof (cases "?c = 0")
    case True
    then show ?thesis by (auto simp: present_def has_at_def)
  next
    case False
    have "scan_key (dkey d) (hash k) k (?c - 1) = present d k"
      unfolding scan_key_iff present_def has_at_def by (metis zle_diff1_eq)
    moreover have "?c = 1 \<Longrightarrow> (dkey d (hash k) = k) = present d k"
      unfolding present_def has_at_def
      by (metis add.right_neutral less_le_not_le zero_less_one zless_imp_add1_zle one_add_one
          add_le_cancel_left le_less)
    ultimately show ?thesis using False by simp
  qed
  then show ?thesis by (simp add: contains_def Let_def)
qed

lemma find_key_found:
  "0 \<le> j \<Longrightarrow> j \<le> i \<Longrightarrow> ky j = k \<Longrightarrow> (\<forall>m. j < m \<and> m \<le> i \<longrightarrow> ky m \<noteq> k)
   \<Longrightarrow> find_key ky k i = Inr j"
proof (induction ky k i rule: find_key.induct)
  case (1 ky k i)
  show ?case
  proof (cases "j = i")
    case True
    with "1.prems" show ?thesis by (subst find_key.simps) simp
  next
    case False
    with "1.prems" have ji: "j < i" by simp
    with "1.prems" have ne: "ky i \<noteq> k" by simp
    have "find_key ky k (i - 1) = Inr j"
      using "1.IH" "1.prems" ji ne by simp
    with ji ne "1.prems"(1) show ?thesis by (subst find_key.simps) simp
  qed
qed

lemma find_key_has_at:
  assumes ok: "dict_ok d" and h: "has_at d k i" and c: "c = dcount d (hash k)"
  shows "find_key (dkey d) k (hash k + c - 1) = Inr (hash k + i)"
proof (rule find_key_found)
  from h show "0 \<le> hash k + i" "hash k + i \<le> hash k + c - 1" "dkey d (hash k + i) = k"
    by (auto simp: has_at_def c)
  show "\<forall>m. hash k + i < m \<and> m \<le> hash k + c - 1 \<longrightarrow> dkey d m \<noteq> k"
  proof (intro allI impI)
    fix m assume m: "hash k + i < m \<and> m \<le> hash k + c - 1"
    show "dkey d m \<noteq> k"
    proof
      assume "dkey d m = k"
      with m h have "has_at d k (m - hash k)" by (auto simp: has_at_def c)
      from has_at_unique[OF ok this h] m show False by simp
    qed
  qed
qed

lemma getvaluex_spec:
  assumes ok: "dict_ok d" and lh: "lasthash d = hash k" and m: "maps_to d k v"
  shows "getvaluex d k = Inr v"
proof -
  from m obtain i where i: "has_at d k i" and v: "dvalue d (hash k + i) = v"
    by (auto simp: maps_to_def)
  show ?thesis
  proof (cases "dcount d (hash k) = 1")
    case True
    with i have "i = 0" by (simp add: has_at_def)
    with v True lh show ?thesis by (simp add: getvaluex_def)
  next
    case False
    with find_key_has_at[OF ok i refl] v lh show ?thesis
      by (simp add: getvaluex_def)
  qed
qed

lemma getvalue_spec:
  assumes ok: "dict_ok d" and m: "maps_to d k v"
  shows "getvalue d k = Inr (d\<lparr>lasthash := hash k\<rparr>, v)"
  using getvaluex_spec[of "d\<lparr>lasthash := hash k\<rparr>" k v] ok m
  by (simp add: getvalue_def)

lemma replacex_spec:
  assumes ok: "dict_ok d" and lh: "lasthash d = hash k" and p: "present d k"
  shows "\<exists>d'. replacex d k v = Inr d' \<and> dict_ok d' \<and> dcount d' = dcount d
     \<and> (\<forall>k' v'. maps_to d' k' v' \<longleftrightarrow> (if k' = k then v' = v else maps_to d k' v'))"
proof -
  from p obtain i where i: "has_at d k i" by (auto simp: present_def)
  define d' where "d' = d\<lparr>dvalue := (dvalue d)(hash k + i := v)\<rparr>"
  have r: "replacex d k v = Inr d'"
  proof (cases "dcount d (hash k) = 1")
    case True
    with i have "i = 0" by (simp add: has_at_def)
    with True lh show ?thesis by (simp add: replacex_def d'_def)
  next
    case False
    with find_key_has_at[OF ok i refl] lh show ?thesis
      by (simp add: replacex_def d'_def)
  qed
  have h: "has_at d' = has_at d"
    by (simp add: has_at_def d'_def fun_eq_iff)
  have ok': "dict_ok d'"
    using ok by (simp add: dict_ok_def d'_def)
  have m: "maps_to d' k' v' \<longleftrightarrow> (if k' = k then v' = v else maps_to d k' v')" for k' v'
  proof (cases "k' = k")
    case True
    have "maps_to d' k v' \<longleftrightarrow> v' = v"
    proof
      assume "maps_to d' k v'"
      then obtain j where j: "has_at d k j" "dvalue d' (hash k + j) = v'"
        by (auto simp: maps_to_def h)
      from has_at_unique[OF ok j(1) i] j(2) show "v' = v" by (simp add: d'_def)
    next
      assume "v' = v"
      moreover have "has_at d' k i" using i by (simp add: h)
      moreover have "dvalue d' (hash k + i) = v" by (simp add: d'_def)
      ultimately show "maps_to d' k v'" unfolding maps_to_def by blast
    qed
    with True show ?thesis by simp
  next
    case False
    have "dvalue d' (hash k' + j) = dvalue d (hash k' + j)" if j: "has_at d k' j" for j
    proof -
      have "hash k' + j \<noteq> hash k + i"
      proof (cases "hash k' = hash k")
        case True
        with j i False show ?thesis by (auto simp: has_at_def)
      next
        case False
        from j i dict_ok_count[OF ok, of k] dict_ok_count[OF ok, of k']
        have "0 \<le> j" "j < 16" "0 \<le> i" "i < 16" by (auto simp: has_at_def)
        with hash_apart[OF False] show ?thesis by simp
      qed
      then show ?thesis by (simp add: d'_def)
    qed
    then have "maps_to d' k' v' \<longleftrightarrow> maps_to d k' v'"
      by (auto simp: maps_to_def h)
    with False show ?thesis by simp
  qed
  from r ok' m show ?thesis by (auto simp: d'_def)
qed

lemma addx_spec:
  assumes ok: "dict_ok d" and lh: "lasthash d = hash k" and np: "\<not> present d k"
    and room: "dcount d (hash k) < 16"
  shows "dict_ok (addx d k v)
     \<and> (\<forall>k' v'. maps_to (addx d k v) k' v' \<longleftrightarrow> (k' = k \<and> v' = v) \<or> maps_to d k' v')
     \<and> (\<forall>k'. dcount (addx d k v) (hash k') \<le> dcount d (hash k') + 1)
     \<and> lasthash (addx d k v) = hash k"
proof -
  let ?h = "hash k" and ?c = "dcount d (hash k)"
  let ?d = "addx d k v"
  have c0: "0 \<le> ?c" using dict_ok_count[OF ok] by simp
  have cnt: "dcount ?d = (dcount d)(?h := ?c + 1)"
    and key: "dkey ?d = (dkey d)(?h + ?c := k)"
    and val: "dvalue ?d = (dvalue d)(?h + ?c := v)"
    using lh by (simp_all add: addx_def Let_def)
  have other: "hash k' + j \<noteq> ?h + ?c" if "hash k' \<noteq> ?h" "0 \<le> j" "j < dcount d (hash k')" for k' j
    using hash_apart[OF that(1), of j ?c] that dict_ok_count[OF ok, of k'] c0 room by simp
  have h_same: "has_at ?d k' j \<longleftrightarrow> (j = ?c \<and> k' = k) \<or> has_at d k' j" if "hash k' = ?h" for k' j
    using that c0 by (auto simp: has_at_def cnt key)
  have h_other: "has_at ?d k' j \<longleftrightarrow> has_at d k' j" if "hash k' \<noteq> ?h" for k' j
    using that other[OF that] by (auto simp: has_at_def cnt key)
  have h_new: "has_at ?d k ?c"
    using c0 by (simp add: has_at_def cnt key)
  have m: "maps_to ?d k' v' \<longleftrightarrow> (k' = k \<and> v' = v) \<or> maps_to d k' v'" for k' v'
  proof (cases "hash k' = ?h")
    case True
    show ?thesis
    proof (cases "k' = k")
      case True
      have "has_at ?d k j \<longleftrightarrow> j = ?c" for j
        using h_same[of k j] np by (auto simp: present_def)
      then have "maps_to ?d k v' \<longleftrightarrow> v' = v"
        by (auto simp: maps_to_def val)
      moreover have "\<not> maps_to d k v'" using np maps_to_present by blast
      ultimately show ?thesis using True by simp
    next
      case False
      have "has_at ?d k' j \<longleftrightarrow> has_at d k' j" for j
        using h_same[OF True, of j] False by simp
      moreover have "dvalue ?d (hash k' + j) = dvalue d (hash k' + j)" if "has_at d k' j" for j
        using that True by (auto simp: val has_at_def)
      ultimately have "maps_to ?d k' v' \<longleftrightarrow> maps_to d k' v'"
        by (auto simp: maps_to_def)
      with False show ?thesis by simp
    qed
  next
    case False
    then have ne: "k' \<noteq> k" by auto
    have "dvalue ?d (hash k' + j) = dvalue d (hash k' + j)" if "has_at d k' j" for j
      using other[OF False, of j] that by (auto simp: val has_at_def)
    then have "maps_to ?d k' v' \<longleftrightarrow> maps_to d k' v'"
      using h_other[OF False] by (auto simp: maps_to_def)
    with ne show ?thesis by simp
  qed
  have ok': "dict_ok ?d"
    unfolding dict_ok_def
  proof (intro conjI allI impI)
    fix k'
    show "0 \<le> dcount ?d (hash k')" "dcount ?d (hash k') \<le> 16"
      using dict_ok_count[OF ok, of k'] room c0 by (auto simp: cnt)
  next
    fix k' i j assume a: "0 \<le> j \<and> j < i \<and> i < dcount ?d (hash k')"
    show "dkey ?d (hash k' + i) \<noteq> dkey ?d (hash k' + j)"
    proof (cases "hash k' = ?h")
      case True
      show ?thesis
      proof (cases "i = ?c")
        case True
        have "dkey d (?h + j) \<noteq> k"
        proof
          assume "dkey d (?h + j) = k"
          with a True have "has_at d k j" by (simp add: has_at_def)
          with np show False by (auto simp: present_def)
        qed
        with a True \<open>hash k' = ?h\<close> show ?thesis by (simp add: key)
      next
        case False
        with a True have ic: "i < ?c" by (simp add: cnt)
        with a have "dkey d (?h + i) \<noteq> dkey d (?h + j)"
          using dict_ok_distinct[OF ok, of i k j] by auto
        with a ic True show ?thesis by (simp add: key)
      qed
    next
      case False
      with a have ic: "i < dcount d (hash k')" by (simp add: cnt)
      with a have "dkey d (hash k' + i) \<noteq> dkey d (hash k' + j)"
        using dict_ok_distinct[OF ok, of i k' j] by auto
      with a ic other[OF False, of i] other[OF False, of j] show ?thesis
        by (simp add: key)
    qed
  next
    fix k' i assume a: "0 \<le> i \<and> i < dcount ?d (hash k')"
    show "hash (dkey ?d (hash k' + i)) = hash k'"
    proof (cases "hash k' = ?h")
      case True
      with a dict_ok_hash[OF ok, of i k] show ?thesis
        by (cases "i = ?c") (auto simp: key cnt)
    next
      case False
      with a other[OF False, of i] dict_ok_hash[OF ok, of i k'] show ?thesis
        by (auto simp: key cnt)
    qed
  qed
  have "dcount ?d (hash k') \<le> dcount d (hash k') + 1" for k'
    by (simp add: cnt)
  moreover have "lasthash ?d = hash k" using lh by (simp add: addx_def Let_def)
  ultimately show ?thesis using ok' m by blast
qed

lemma remove_loop_shift:
  "0 \<le> j \<Longrightarrow> j \<le> i \<Longrightarrow> (j = i \<longrightarrow> x = k)
   \<Longrightarrow> (j < i \<longrightarrow> ky j = k \<and> x \<noteq> k \<and> (\<forall>m. j < m \<and> m < i \<longrightarrow> ky m \<noteq> k))
   \<Longrightarrow> remove_loop ky vl k i x v
       = Inr (\<lambda>m. if j \<le> m \<and> m < i then (if m = i - 1 then x else ky (m + 1)) else ky m,
              \<lambda>m. if j \<le> m \<and> m < i then (if m = i - 1 then v else vl (m + 1)) else vl m)"
proof (induction ky vl k i x v rule: remove_loop.induct)
  case (1 ky vl k i x v)
  show ?case
  proof (cases "j = i")
    case True
    with "1.prems" have "x = k" by simp
    with True show ?thesis by (subst remove_loop.simps) (auto simp: fun_eq_iff)
  next
    case False
    with "1.prems" have ji: "j < i" and xk: "x \<noteq> k" and kj: "ky j = k"
      and above: "\<forall>m. j < m \<and> m < i \<longrightarrow> ky m \<noteq> k"
      by simp_all
    from ji "1.prems"(1) have i1: "\<not> i - 1 < 0" by simp
    have "remove_loop (ky(i - 1 := x)) (vl(i - 1 := v)) k (i - 1) (ky (i - 1)) (vl (i - 1))
        = Inr (\<lambda>m. if j \<le> m \<and> m < i - 1
                   then (if m = i - 1 - 1 then ky (i - 1) else (ky(i - 1 := x)) (m + 1))
                   else (ky(i - 1 := x)) m,
               \<lambda>m. if j \<le> m \<and> m < i - 1
                   then (if m = i - 1 - 1 then vl (i - 1) else (vl(i - 1 := v)) (m + 1))
                   else (vl(i - 1 := v)) m)"
    proof (rule "1.IH"[OF xk i1])
      show "0 \<le> j" by fact
      show "j \<le> i - 1" using ji by simp
      show "j = i - 1 \<longrightarrow> ky (i - 1) = k" using kj by auto
      show "j < i - 1 \<longrightarrow> (ky(i - 1 := x)) j = k \<and> ky (i - 1) \<noteq> k
              \<and> (\<forall>m. j < m \<and> m < i - 1 \<longrightarrow> (ky(i - 1 := x)) m \<noteq> k)"
        using kj above by auto
    qed
    also have "\<dots> = Inr (\<lambda>m. if j \<le> m \<and> m < i then (if m = i - 1 then x else ky (m + 1)) else ky m,
              \<lambda>m. if j \<le> m \<and> m < i then (if m = i - 1 then v else vl (m + 1)) else vl m)"
      using ji by (auto simp: fun_eq_iff)
    finally show ?thesis
      using xk i1 by (subst remove_loop.simps) simp
  qed
qed

lemma removex_spec:
  assumes ok: "dict_ok d" and lh: "lasthash d = hash k" and p: "present d k"
  shows "\<exists>d'. removex d k = Inr d' \<and> dict_ok d'
     \<and> (\<forall>k' v'. maps_to d' k' v' \<longleftrightarrow> k' \<noteq> k \<and> maps_to d k' v')
     \<and> (\<forall>k'. dcount d' (hash k') \<le> dcount d (hash k'))
     \<and> lasthash d' = hash k"
proof -
  let ?h = "hash k" and ?c = "dcount d (hash k)"
  from p obtain j where j: "has_at d k j" by (auto simp: present_def)
  then have j0: "0 \<le> j" and jc: "j < ?c" and kj: "dkey d (?h + j) = k"
    by (simp_all add: has_at_def)
  have c16: "?c \<le> 16" using dict_ok_count[OF ok] by simp
  define ky' where "ky' = (\<lambda>m. if ?h + j \<le> m \<and> m < ?h + ?c - 1 then dkey d (m + 1) else dkey d m)"
  define vl' where "vl' = (\<lambda>m. if ?h + j \<le> m \<and> m < ?h + ?c - 1 then dvalue d (m + 1) else dvalue d m)"
  define d' where "d' = d\<lparr>dkey := ky', dvalue := vl', dcount := (dcount d)(?h := ?c - 1)\<rparr>"
  have above: "dkey d m \<noteq> k" if "?h + j < m" "m \<le> ?h + ?c - 1" for m
  proof
    assume "dkey d m = k"
    with that j0 have "has_at d k (m - ?h)" by (simp add: has_at_def)
    from has_at_unique[OF ok this j] that show False by simp
  qed
  have loop: "remove_loop (dkey d) (dvalue d) k (?h + ?c - 1) (dkey d (?h + ?c - 1)) (dvalue d (?h + ?c - 1))
      = Inr (ky', vl')"
  proof -
    have "remove_loop (dkey d) (dvalue d) k (?h + ?c - 1) (dkey d (?h + ?c - 1)) (dvalue d (?h + ?c - 1))
      = Inr (\<lambda>m. if ?h + j \<le> m \<and> m < ?h + ?c - 1
                 then (if m = ?h + ?c - 1 - 1 then dkey d (?h + ?c - 1) else dkey d (m + 1))
                 else dkey d m,
             \<lambda>m. if ?h + j \<le> m \<and> m < ?h + ?c - 1
                 then (if m = ?h + ?c - 1 - 1 then dvalue d (?h + ?c - 1) else dvalue d (m + 1))
                 else dvalue d m)"
    proof (rule remove_loop_shift)
      show "0 \<le> ?h + j" using j0 by simp
      show "?h + j \<le> ?h + ?c - 1" using jc by simp
      show "?h + j = ?h + ?c - 1 \<longrightarrow> dkey d (?h + ?c - 1) = k" using kj by metis
      show "?h + j < ?h + ?c - 1 \<longrightarrow> dkey d (?h + j) = k \<and> dkey d (?h + ?c - 1) \<noteq> k
          \<and> (\<forall>m. ?h + j < m \<and> m < ?h + ?c - 1 \<longrightarrow> dkey d m \<noteq> k)"
        using kj above by auto
    qed
    also have "\<dots> = Inr (ky', vl')"
      by (auto simp: ky'_def vl'_def fun_eq_iff intro!: arg_cong[of _ _ "dkey d"] arg_cong[of _ _ "dvalue d"])
    finally show ?thesis .
  qed
  have same: "ky' m = dkey d m \<and> vl' m = dvalue d m" if "m < ?h + j \<or> ?h + ?c - 1 \<le> m" for m
    using that by (auto simp: ky'_def vl'_def)
  have r: "removex d k = Inr d'"
  proof (cases "?c = 1")
    case True
    with j0 jc have "j = 0" by simp
    with True have "ky' = dkey d" "vl' = dvalue d" by (auto simp: ky'_def vl'_def fun_eq_iff)
    with True lh show ?thesis by (simp add: removex_def d'_def)
  next
    case False
    have "\<not> ?h + ?c - 1 < 0" using jc j0 hash_nonneg[of k] by linarith
    with False loop lh show ?thesis by (simp add: removex_def Let_def d'_def)
  qed
  have cnt: "dcount d' = (dcount d)(?h := ?c - 1)" by (simp add: d'_def)
  have key: "dkey d' = ky'" and val: "dvalue d' = vl'" by (simp_all add: d'_def)
  have other: "ky' (hash k' + i) = dkey d (hash k' + i) \<and> vl' (hash k' + i) = dvalue d (hash k' + i)"
    if "hash k' \<noteq> ?h" "0 \<le> i" "i < dcount d (hash k')" for k' i
  proof -
    have "hash k' + i \<noteq> ?h + n" if "0 \<le> n" "n < 16" for n
      using hash_apart[OF \<open>hash k' \<noteq> ?h\<close>, of i n] that \<open>0 \<le> i\<close> \<open>i < dcount d (hash k')\<close>
        dict_ok_count[OF ok, of k'] by simp
    from this[of "hash k' + i - ?h"] c16 j0 show ?thesis
      by (auto simp: ky'_def vl'_def)
  qed
  have in_bucket: "has_at d' k' i \<longleftrightarrow> k' \<noteq> k \<and> has_at d k' (if i < j then i else i + 1)"
    if "hash k' = ?h" for k' i
  proof (cases "i < j")
    case True
    then have "ky' (?h + i) = dkey d (?h + i)" by (simp add: ky'_def)
    moreover have "dkey d (?h + i) \<noteq> k" if "0 \<le> i"
      using dict_ok_distinct[OF ok, of i k j] that True jc j0 kj by auto
    ultimately show ?thesis using True jc that by (auto simp: has_at_def cnt key)
  next
    case False
    have "ky' (?h + i) = dkey d (?h + i + 1)" if "i < ?c - 1"
      using False that by (simp add: ky'_def)
    moreover have "dkey d (?h + (i + 1)) \<noteq> k" if "i + 1 < ?c"
      using dict_ok_distinct[OF ok, of "i + 1" k j] that False jc j0 kj by auto
    ultimately show ?thesis using False j0 that
      by (auto simp: has_at_def cnt key add.assoc)
  qed
  have val_bucket: "vl' (?h + i) = dvalue d (?h + (if i < j then i else i + 1))" if "i < ?c - 1" for i
    using that by (auto simp: vl'_def add.assoc)
  have m: "maps_to d' k' v' \<longleftrightarrow> k' \<noteq> k \<and> maps_to d k' v'" for k' v'
  proof (cases "hash k' = ?h")
    case True
    show ?thesis
    proof
      assume "maps_to d' k' v'"
      then obtain i where i: "has_at d' k' i" "vl' (hash k' + i) = v'"
        by (auto simp: maps_to_def val)
      from i(1) True have "i < ?c - 1" by (simp add: has_at_def cnt)
      with in_bucket[OF True, of i] i val_bucket[of i] True
      show "k' \<noteq> k \<and> maps_to d k' v'" by (auto simp: maps_to_def)
    next
      assume a: "k' \<noteq> k \<and> maps_to d k' v'"
      then obtain i where i: "has_at d k' i" "dvalue d (hash k' + i) = v'"
        by (auto simp: maps_to_def)
      from i(1) a kj True have ij: "i \<noteq> j" by (auto simp: has_at_def)
      define i' where "i' = (if i < j then i else i - 1)"
      have e: "(if i' < j then i' else i' + 1) = i" using ij by (auto simp: i'_def)
      from i(1) True ij jc have "i' < ?c - 1" by (auto simp: i'_def has_at_def)
      with in_bucket[OF True, of i'] val_bucket[of i'] e i a True
      show "maps_to d' k' v'" by (auto simp: maps_to_def val)
    qed
  next
    case False
    then have ne: "k' \<noteq> k" by auto
    from False other[OF False] have "has_at d' k' i \<longleftrightarrow> has_at d k' i" for i
      by (auto simp: has_at_def cnt key)
    moreover have "dvalue d' (hash k' + i) = dvalue d (hash k' + i)" if "has_at d k' i" for i
      using other[OF False, of i] that by (simp add: val has_at_def)
    ultimately show ?thesis using ne by (auto simp: maps_to_def)
  qed
  have ok': "dict_ok d'"
    unfolding dict_ok_def
  proof (intro conjI allI impI)
    fix k'
    show "0 \<le> dcount d' (hash k')" "dcount d' (hash k') \<le> 16"
      using dict_ok_count[OF ok, of k'] jc j0 by (auto simp: cnt)
  next
    fix k' i l assume a: "0 \<le> l \<and> l < i \<and> i < dcount d' (hash k')"
    show "dkey d' (hash k' + i) \<noteq> dkey d' (hash k' + l)"
    proof (cases "hash k' = ?h")
      case True
      let ?f = "\<lambda>i. if i < j then i else i + 1"
      from a True have ic: "i < ?c - 1" by (simp add: cnt)
      then have "ky' (?h + i) = dkey d (?h + ?f i)" "ky' (?h + l) = dkey d (?h + ?f l)"
        using a by (auto simp: ky'_def add.assoc)
      moreover have "dkey d (?h + ?f i) \<noteq> dkey d (?h + ?f l)"
        using dict_ok_distinct[OF ok, of "?f i" k "?f l"] a ic by auto
      ultimately show ?thesis using True by (simp add: key)
    next
      case False
      with a have ic: "i < dcount d (hash k')" by (simp add: cnt)
      with a have "dkey d (hash k' + i) \<noteq> dkey d (hash k' + l)"
        using dict_ok_distinct[OF ok, of i k' l] by auto
      with a ic other[OF False, of i] other[OF False, of l] show ?thesis
        by (simp add: key)
    qed
  next
    fix k' i assume a: "0 \<le> i \<and> i < dcount d' (hash k')"
    show "hash (dkey d' (hash k' + i)) = hash k'"
    proof (cases "hash k' = ?h")
      case True
      let ?f = "\<lambda>i. if i < j then i else i + 1"
      from a True have ic: "i < ?c - 1" by (simp add: cnt)
      then have "ky' (?h + i) = dkey d (?h + ?f i)"
        by (auto simp: ky'_def add.assoc)
      with dict_ok_hash[OF ok, of "?f i" k] a ic True show ?thesis
        by (auto simp: key)
    next
      case False
      with a other[OF False, of i] dict_ok_hash[OF ok, of i k'] show ?thesis
        by (auto simp: key cnt)
    qed
  qed
  have "dcount d' (hash k') \<le> dcount d (hash k')" for k'
    by (simp add: cnt)
  moreover have "lasthash d' = hash k" using lh by (simp add: d'_def)
  ultimately show ?thesis using r ok' m by blast
qed

end
